theory Spec2Isabelle
  imports Complex_Main "HOL-Library.Monad_Syntax" "HOL-Library.Signed_Division"
begin

section \<open>CellularAutomatonLighting2D: the grid, the double buffer and the field\<close>

text \<open>
  A shallow embedding of \<^verbatim>\<open>Main.cpp\<close>. Every unchecked container access of the source
  (\<^verbatim>\<open>operator[]\<close> on a vector) and every integer division is a partial operation:
  an index out of range or a zero divisor is the value \<open>None\<close>. The \<^verbatim>\<open>double\<close>
  components of colours, positions and velocities are idealised as real numbers.
\<close>

subsection \<open>Values of the library: points, vectors, colours\<close>

text \<open>\<^verbatim>\<open>Point\<close> is a pair of ints \<open>(x, y)\<close>, \<^verbatim>\<open>Vec2\<close> a pair of doubles \<open>(x, y)\<close>.\<close>

type_synonym Point = "int \<times> int"
type_synonym Vec2 = "real \<times> real"

text \<open>\<^verbatim>\<open>ColorF\<close>: the members \<^verbatim>\<open>r\<close>, \<^verbatim>\<open>g\<close>, \<^verbatim>\<open>b\<close> and the opacity \<^verbatim>\<open>a\<close>.\<close>

record ColorF =
  chan_r :: real
  chan_g :: real
  chan_b :: real
  chan_a :: real

text \<open>\<^verbatim>\<open>Palette::Black\<close> converted to \<^verbatim>\<open>ColorF\<close>: the darkest value, fully opaque.\<close>

definition Black :: ColorF where
  "Black = \<lparr>chan_r = 0, chan_g = 0, chan_b = 0, chan_a = 1\<rparr>"

text \<open>The three colour channels that the diffusion reads and writes.\<close>

datatype channel = Red | Green | Blue

fun chan :: "channel \<Rightarrow> ColorF \<Rightarrow> real" where
  "chan Red c = chan_r c"
| "chan Green c = chan_g c"
| "chan Blue c = chan_b c"

record Circle =
  center :: Vec2
  radius :: real

record Image =
  image_width :: nat
  image_height :: nat

subsection \<open>Loops that can fail\<close>

text \<open>A \<^verbatim>\<open>for\<close> loop over a list of indices whose body may hit an undefined operation.\<close>

fun forM :: "('a \<Rightarrow> 's \<Rightarrow> 's option) \<Rightarrow> 'a list \<Rightarrow> 's \<Rightarrow> 's option" where
  "forM body [] s = Some s"
| "forM body (i # is) s = (case body i s of None \<Rightarrow> None | Some s' \<Rightarrow> forM body is s')"

subsection \<open>DoubleBuffer\<close>

text \<open>
  \<^verbatim>\<open>std::array<T, 2> m_buffer\<close> is a list of two instances; \<^verbatim>\<open>m_currentWriteBuffer\<close>
  is the index of the instance that \<^verbatim>\<open>write()\<close> refers to.
\<close>

record 'a DoubleBuffer =
  m_buffer :: "'a list"
  m_currentWriteBuffer :: nat

definition DoubleBuffer_init :: "'a \<Rightarrow> 'a DoubleBuffer" where
  "DoubleBuffer_init initial = \<lparr>m_buffer = [initial, initial], m_currentWriteBuffer = 0\<rparr>"

definition flip :: "'a DoubleBuffer \<Rightarrow> 'a DoubleBuffer" where
  "flip d = d\<lparr>m_currentWriteBuffer := (m_currentWriteBuffer d + 1) mod length (m_buffer d)\<rparr>"

definition writeIndex :: "'a DoubleBuffer \<Rightarrow> nat" where
  "writeIndex d = m_currentWriteBuffer d"

definition readIndex :: "'a DoubleBuffer \<Rightarrow> nat" where
  "readIndex d = (m_currentWriteBuffer d + 1) mod length (m_buffer d)"

text \<open>The instance \<^verbatim>\<open>write()\<close> refers to, and a store through that reference.\<close>

definition write' :: "'a DoubleBuffer \<Rightarrow> 'a" where
  "write' d = m_buffer d ! writeIndex d"

definition write_assign :: "'a \<Rightarrow> 'a DoubleBuffer \<Rightarrow> 'a DoubleBuffer" where
  "write_assign v d = d\<lparr>m_buffer := (m_buffer d)[writeIndex d := v]\<rparr>"

definition read :: "'a DoubleBuffer \<Rightarrow> 'a" where
  "read d = m_buffer d ! readIndex d"

text \<open>
  The states a \<^verbatim>\<open>DoubleBuffer\<close> can be in: the array has its two instances and the
  private index is 0 or 1 (it starts at 0 and only \<^verbatim>\<open>flip\<close> changes it).
\<close>

definition DoubleBuffer_ok :: "'a DoubleBuffer \<Rightarrow> bool" where
  "DoubleBuffer_ok d = (length (m_buffer d) = 2 \<and> m_currentWriteBuffer d < 2)"

subsection \<open>Grid2D\<close>

text \<open>\<^verbatim>\<open>m_grid\<close>: a vector of rows, each a vector of cells.\<close>

type_synonym 'a Grid2D = "'a list list"

definition Grid2D_fill :: "nat \<Rightarrow> nat \<Rightarrow> 'a \<Rightarrow> 'a Grid2D" where
  "Grid2D_fill nx ny v = replicate ny (replicate nx v)"

definition reset :: "'a \<Rightarrow> 'a Grid2D \<Rightarrow> 'a Grid2D" where
  "reset v g = map (map (\<lambda>elem. v)) g"

definition isValid :: "'a Grid2D \<Rightarrow> Point \<Rightarrow> bool" where
  "isValid g p = (0 \<le> snd p \<and> snd p < int (length g)
     \<and> 0 \<le> fst p \<and> fst p < int (length (g ! nat (snd p))))"

definition width :: "'a Grid2D \<Rightarrow> nat" where
  "width g = (if g = [] then 0 else length (hd g))"

definition height :: "'a Grid2D \<Rightarrow> nat" where
  "height g = length g"

text \<open>
  \<^verbatim>\<open>operator[](const Point&)\<close> is \<^verbatim>\<open>m_grid[p.y][p.x]\<close> with no check: the indices are
  converted to \<^verbatim>\<open>size_t\<close>, so a negative or too large coordinate is out of range.
\<close>

definition cell_at :: "'a Grid2D \<Rightarrow> Point \<Rightarrow> 'a option" where
  "cell_at g p = (if isValid g p then Some (g ! nat (snd p) ! nat (fst p)) else None)"

definition cell_put :: "'a Grid2D \<Rightarrow> Point \<Rightarrow> 'a \<Rightarrow> 'a Grid2D option" where
  "cell_put g p v =
     (if isValid g p
      then Some (g[nat (snd p) := (g ! nat (snd p))[nat (fst p) := v]])
      else None)"

subsection \<open>Field: state, construction, wall editing\<close>

definition FieldWall :: bool where
  "FieldWall = True"

definition FieldSpace :: bool where
  "FieldSpace = False"

text \<open>
  The members of \<^verbatim>\<open>Field\<close> that the simulation uses (the texture only serves drawing).
  \<^verbatim>\<open>Grid2D<char> m_isWall\<close> only ever holds \<^verbatim>\<open>FieldWall()\<close> or \<^verbatim>\<open>FieldSpace()\<close>.
\<close>

record Field =
  m_field :: Image
  m_isWall :: "bool Grid2D"
  m_brightness :: "ColorF Grid2D DoubleBuffer"
  m_lightPos :: "Circle list"
  m_lightColor :: "ColorF list"
  m_velocity :: "Vec2 list"

text \<open>
  How construction can end without a field: \<^verbatim>\<open>assert(false)\<close> after the logged message,
  or an operation without defined behaviour (an integer division by zero, an access out
  of range).
\<close>

datatype error = AssertionFailed string | Undefined

definition nth_opt :: "'a list \<Rightarrow> nat \<Rightarrow> 'a option" where
  "nth_opt xs i = (if i < length xs then Some (xs ! i) else None)"

definition gridUnitPixel :: "Field \<Rightarrow> int option" where
  "gridUnitPixel f =
     (if height (m_isWall f) = 0 then None
      else Some (int (image_height (m_field f) div height (m_isWall f))))"

definition isWall :: "Field \<Rightarrow> Point \<Rightarrow> bool option" where
  "isWall f p = map_option (\<lambda>c. c = FieldWall) (cell_at (m_isWall f) p)"

definition checkInitialValidness :: "Field \<Rightarrow> nat \<Rightarrow> error + unit" where
  "checkInitialValidness f unitPixel =
     (let condition = (image_width (m_field f) mod unitPixel = 0
                       \<and> image_height (m_field f) mod unitPixel = 0)
      in if \<not> condition
         then Inl (AssertionFailed
           ''Field Class Initialization Failed : Field Resolution Cannot Be Divided By Cell Unit Size.'')
         else Inr ())"

text \<open>
  \<^verbatim>\<open>init()\<close>. The positions drawn by \<^verbatim>\<open>RandomVec2\<close> and the library's conversion of
  \<^verbatim>\<open>HSV\<close> to \<^verbatim>\<open>ColorF\<close> are parameters. The radius of every light evaluates
  \<^verbatim>\<open>gridUnitPixel()\<close>, which divides by the number of rows.
\<close>

definition initCell :: "nat \<Rightarrow> nat \<Rightarrow> nat \<Rightarrow> nat \<Rightarrow> bool Grid2D \<Rightarrow> bool Grid2D option" where
  "initCell w h yy xx g = do {
     g1 \<leftarrow> cell_put g (int xx, int yy) FieldSpace;
     if xx = 0 \<or> yy = 0 \<or> xx + 1 = w \<or> yy + 1 = h
     then cell_put g1 (int xx, int yy) FieldWall
     else Some g1
   }"

definition initWalls :: "bool Grid2D \<Rightarrow> bool Grid2D option" where
  "initWalls g =
     forM (\<lambda>yy. forM (initCell (width g) (height g) yy) [0..<width g]) [0..<height g] g"

definition init :: "(nat \<Rightarrow> Vec2) \<Rightarrow> (real \<Rightarrow> real \<Rightarrow> real \<Rightarrow> ColorF) \<Rightarrow> Field \<Rightarrow> Field option" where
  "init randomPos hsv f = do {
     walls \<leftarrow> initWalls (m_isWall f);
     let f1 = f\<lparr>m_isWall := walls\<rparr>;
     u \<leftarrow> gridUnitPixel f1;
     Some (f1\<lparr>m_lightPos := map (\<lambda>i. \<lparr>center = randomPos i, radius = real_of_int u * 0.5\<rparr>) [0..<8],
              m_lightColor := map (\<lambda>i. hsv (120.0 + 30.0 * real i) 0.7 1.0) [0..<8],
              m_velocity := map (\<lambda>i. (0, 0)) [0..<8]\<rparr>)
   }"

text \<open>
  The constructor. The image's dimensions are unsigned, so the divisions and remainders
  by the cell size are on natural numbers; the member initialisers divide before
  \<^verbatim>\<open>checkInitialValidness\<close> runs.
\<close>

definition Field_new ::
  "(nat \<Rightarrow> Vec2) \<Rightarrow> (real \<Rightarrow> real \<Rightarrow> real \<Rightarrow> ColorF) \<Rightarrow> Image \<Rightarrow> nat \<Rightarrow> error + Field" where
  "Field_new randomPos hsv img unitPixel =
     (if unitPixel = 0 then Inl Undefined
      else
        let f = \<lparr>m_field = img,
                 m_isWall = Grid2D_fill (image_width img div unitPixel)
                              (image_height img div unitPixel) FieldSpace,
                 m_brightness = DoubleBuffer_init
                    (Grid2D_fill (image_width img div unitPixel)
                       (image_height img div unitPixel) Black),
                 m_lightPos = [], m_lightColor = [], m_velocity = []\<rparr>
        in case checkInitialValidness f unitPixel of
             Inl e \<Rightarrow> Inl e
           | Inr u \<Rightarrow> (case init randomPos hsv f of None \<Rightarrow> Inl Undefined | Some f' \<Rightarrow> Inr f'))"

text \<open>What one frame reads from the input devices and the random generator.\<close>

record Input =
  mousePos :: Point
  mousePosF :: Vec2
  mouseL :: bool
  mouseR :: bool
  mouseM :: bool
  keySpace :: bool
  randomVec :: "nat \<Rightarrow> Vec2"

text \<open>\<^verbatim>\<open>mouseGridPos()\<close>: C++ integer division, which truncates towards zero.\<close>

definition mouseGridPos :: "Input \<Rightarrow> Field \<Rightarrow> Point option" where
  "mouseGridPos inp f = do {
     u \<leftarrow> gridUnitPixel f;
     if u = 0 then None
     else Some (fst (mousePos inp) sdiv u, snd (mousePos inp) sdiv u)
   }"

definition editWalls :: "Input \<Rightarrow> Field \<Rightarrow> Field option" where
  "editWalls inp f = do {
     p \<leftarrow> mouseGridPos inp f;
     if isValid (m_isWall f) p
     then do {
       g1 \<leftarrow> (if mouseL inp then cell_put (m_isWall f) p FieldWall else Some (m_isWall f));
       g2 \<leftarrow> (if mouseR inp then cell_put g1 p FieldSpace else Some g1);
       Some (f\<lparr>m_isWall := g2\<rparr>)
     }
     else Some f
   }"

definition resetBrightness :: "Field \<Rightarrow> Field" where
  "resetBrightness f =
     (let b1 = write_assign (reset Black (write' (m_brightness f))) (m_brightness f);
          b2 = flip b1;
          b3 = write_assign (reset Black (write' b2)) b2
      in f\<lparr>m_brightness := b3\<rparr>)"

subsection \<open>Field: motion of the lights and collision with walls\<close>

type_synonym Line = "Vec2 \<times> Vec2"
type_synonym Rect = "int \<times> int \<times> int \<times> int"
type_synonym RectF = "real \<times> real \<times> real \<times> real"

definition vadd :: "Vec2 \<Rightarrow> Vec2 \<Rightarrow> Vec2" where
  "vadd u v = (fst u + fst v, snd u + snd v)"

definition vsub :: "Vec2 \<Rightarrow> Vec2 \<Rightarrow> Vec2" where
  "vsub u v = (fst u - fst v, snd u - snd v)"

definition vscale :: "Vec2 \<Rightarrow> real \<Rightarrow> Vec2" where
  "vscale v k = (fst v * k, snd v * k)"

definition lengthSq :: "Vec2 \<Rightarrow> real" where
  "lengthSq v = fst v * fst v + snd v * snd v"

definition padd :: "Point \<Rightarrow> Point \<Rightarrow> Point" where
  "padd p q = (fst p + fst q, snd p + snd q)"

text \<open>\<^verbatim>\<open>Vec2::asPoint()\<close> converts each component to \<^verbatim>\<open>int\<close>, truncating towards zero.\<close>

definition truncate :: "real \<Rightarrow> int" where
  "truncate r = (if 0 \<le> r then \<lfloor>r\<rfloor> else \<lceil>r\<rceil>)"

definition asPoint :: "Vec2 \<Rightarrow> Point" where
  "asPoint v = (truncate (fst v), truncate (snd v))"

definition gridPos :: "Field \<Rightarrow> Point \<Rightarrow> Point option" where
  "gridPos f p = do {
     u \<leftarrow> gridUnitPixel f;
     if u = 0 then None
     else Some (\<lfloor>1.0 * real_of_int (fst p) / real_of_int u\<rfloor>,
                \<lfloor>1.0 * real_of_int (snd p) / real_of_int u\<rfloor>)
   }"

definition gridRect :: "Field \<Rightarrow> Point \<Rightarrow> Rect option" where
  "gridRect f p = do {
     unitWidth \<leftarrow> gridUnitPixel f;
     Some (unitWidth * fst p, unitWidth * snd p, unitWidth, unitWidth)
   }"

definition toRectF :: "Rect \<Rightarrow> RectF" where
  "toRectF r = (case r of (rx, ry, rw, rh) \<Rightarrow>
     (real_of_int rx, real_of_int ry, real_of_int rw, real_of_int rh))"

text \<open>\<^verbatim>\<open>stretched(size)\<close> moves every side of the rectangle outwards by \<^verbatim>\<open>size\<close>.\<close>

definition stretched :: "RectF \<Rightarrow> real \<Rightarrow> RectF" where
  "stretched r sz = (case r of (rx, ry, rw, rh) \<Rightarrow>
     (rx - sz, ry - sz, rw + sz * 2, rh + sz * 2))"

definition dt :: real where
  "dt = 1.0 / 60.0"

definition restitution :: real where
  "restitution = 0.5"

definition neighbors_update :: "Point list" where
  "neighbors_update =
     [(0, -1), (-1, 0), (1, 0), (0, 1),
      (-1, -1), (1, -1), (-1, 1), (1, 1)]"

definition reflectDirection :: "Vec2 list" where
  "reflectDirection =
     [(1, - restitution), (- restitution, 1), (- restitution, 1), (1, - restitution),
      (- restitution, - restitution), (- restitution, - restitution),
      (- restitution, - restitution), (- restitution, - restitution)]"

text \<open>The damping and the force of one frame on the velocity of light \<open>i\<close>.\<close>

definition applyForce :: "Input \<Rightarrow> nat \<Rightarrow> Vec2 \<Rightarrow> Vec2 \<Rightarrow> Vec2" where
  "applyForce inp i c v =
     (let v1 = vscale v 0.999;
          toMouse = vsub (mousePosF inp) c
      in if keySpace inp
         then (if mouseM inp then vadd v1 (vscale (vscale toMouse 0.5) dt)
               else if 1.0 < lengthSq toMouse
               then vadd v1 (vscale (vscale (vscale (vsub (0, 0) toMouse) (1 / lengthSq toMouse)) 10000.0) dt)
               else v1)
         else vadd v1 (vscale (randomVec inp i) dt))"

text \<open>
  The test of neighbour \<open>j\<close> of the cell \<open>gridA\<close>. The library's intersection test of a
  rectangle with a segment is the parameter \<open>intersects\<close>.
\<close>

definition neighborHit ::
  "(RectF \<Rightarrow> Line \<Rightarrow> bool) \<Rightarrow> Field \<Rightarrow> Line \<Rightarrow> Point \<Rightarrow> nat \<Rightarrow> bool option" where
  "neighborHit intersects f moveSegment gridA j =
     (let n = padd gridA (neighbors_update ! j)
      in if isValid (m_isWall f) n
         then do {
           w \<leftarrow> isWall f n;
           if w then do {
             r \<leftarrow> gridRect f n;
             Some (intersects (stretched (toRectF r) 2.0) moveSegment)
           } else Some False
         }
         else Some False)"

text \<open>The loop over the neighbours \<open>j\<close>, with its \<^verbatim>\<open>break\<close>; the state is the velocity and \<^verbatim>\<open>reflects\<close>.\<close>

fun collide ::
  "(RectF \<Rightarrow> Line \<Rightarrow> bool) \<Rightarrow> Field \<Rightarrow> Line \<Rightarrow> Point \<Rightarrow> nat list \<Rightarrow> Vec2 \<times> bool
     \<Rightarrow> (Vec2 \<times> bool) option" where
  "collide intersects f moveSegment gridA [] (v, reflects) = Some (v, reflects)"
| "collide intersects f moveSegment gridA (j # js) (v, reflects) =
     (if reflects \<and> 4 \<le> j then Some (v, reflects)
      else do {
        hit \<leftarrow> neighborHit intersects f moveSegment gridA j;
        if hit
        then let scale = reflectDirection ! j
             in collide intersects f moveSegment gridA js
                  ((fst v * fst scale, snd v * snd scale), True)
        else collide intersects f moveSegment gridA js (v, reflects)
      })"

text \<open>The collision block of light \<open>i\<close>: from the velocity after the force to the one that moves the light.\<close>

definition collision ::
  "(RectF \<Rightarrow> Line \<Rightarrow> bool) \<Rightarrow> Field \<Rightarrow> Vec2 \<Rightarrow> Vec2 \<Rightarrow> Vec2 option" where
  "collision intersects f c v = do {
     let moveSegment = (c, vadd c (vscale v dt));
     gridA \<leftarrow> gridPos f (asPoint c);
     gridB \<leftarrow> gridPos f (asPoint (vadd c (vscale v dt)));
     if isValid (m_isWall f) gridA \<and> isValid (m_isWall f) gridB \<and> gridA \<noteq> gridB
     then do {
       w \<leftarrow> isWall f gridA;
       if \<not> w
       then map_option fst (collide intersects f moveSegment gridA [0..<8] (v, False))
       else Some v
     }
     else Some v
   }"

definition updateLight ::
  "(RectF \<Rightarrow> Line \<Rightarrow> bool) \<Rightarrow> Input \<Rightarrow> nat \<Rightarrow> Field \<Rightarrow> Field option" where
  "updateLight intersects inp i f = do {
     v0 \<leftarrow> nth_opt (m_velocity f) i;
     light \<leftarrow> nth_opt (m_lightPos f) i;
     let v1 = applyForce inp i (center light) v0;
     v2 \<leftarrow> collision intersects f (center light) v1;
     let c = vadd (center light) (vscale v2 dt);
     pos \<leftarrow> gridPos f (asPoint c);
     b \<leftarrow> (if isValid (read (m_brightness f)) pos
           then do {
             col \<leftarrow> nth_opt (m_lightColor f) i;
             g \<leftarrow> cell_put (write' (m_brightness f)) pos col;
             Some (write_assign g (m_brightness f))
           }
           else Some (m_brightness f));
     Some (f\<lparr>m_velocity := (m_velocity f)[i := v2],
              m_lightPos := (m_lightPos f)[i := light\<lparr>center := c\<rparr>],
              m_brightness := b\<rparr>)
   }"

subsection \<open>Field: the diffusion automaton\<close>

definition sqrt2 :: real where
  "sqrt2 = sqrt 2.0"

definition attenuationAdjacent :: real where
  "attenuationAdjacent = 0.9"

definition attenuationDiagonal :: real where
  "attenuationDiagonal = attenuationAdjacent powr sqrt2"

definition neighbors_diffusion :: "Point list" where
  "neighbors_diffusion =
     [(-1, -1), (0, -1), (1, -1),
      (-1, 0), (1, 0),
      (-1, 1), (0, 1), (1, 1)]"

definition attenuations :: "real list" where
  "attenuations =
     [attenuationDiagonal, attenuationAdjacent, attenuationDiagonal,
      attenuationAdjacent, attenuationAdjacent,
      attenuationDiagonal, attenuationAdjacent, attenuationDiagonal]"

text \<open>
  One round of the loop over the neighbours \<open>i\<close> of the cell \<open>(xx, yy)\<close>; the state is
  \<^verbatim>\<open>maxBrightness\<close>. The two \<^verbatim>\<open>isWall\<close> calls of the corner test have no validity
  check, and the second is only evaluated when the first holds.
\<close>

definition diffuseNeighbor :: "Field \<Rightarrow> nat \<Rightarrow> nat \<Rightarrow> nat \<Rightarrow> ColorF \<Rightarrow> ColorF option" where
  "diffuseNeighbor f xx yy i maxBrightness = do {
     blocked \<leftarrow>
       (if i = 0 \<or> i = 2 \<or> i = 5 \<or> i = 7
        then do {
          w1 \<leftarrow> isWall f (int xx + fst (neighbors_diffusion ! i), int yy);
          if w1 then isWall f (int xx, int yy + snd (neighbors_diffusion ! i)) else Some False
        }
        else Some False);
     if blocked then Some maxBrightness
     else
       let a = attenuations ! i;
           side = neighbors_diffusion ! i;
           sideCell = padd (int xx, int yy) side
       in if isValid (read (m_brightness f)) sideCell
          then do {
            s \<leftarrow> cell_at (read (m_brightness f)) sideCell;
            Some (maxBrightness\<lparr>chan_r := max (chan_r maxBrightness) (chan_r s * a),
                                chan_g := max (chan_g maxBrightness) (chan_g s * a),
                                chan_b := max (chan_b maxBrightness) (chan_b s * a)\<rparr>)
          }
          else Some maxBrightness
   }"

text \<open>
  The body of the loops over \<open>yy\<close> and \<open>xx\<close>. Within one pass only the instance that
  \<^verbatim>\<open>write()\<close> refers to changes, so the pass threads that grid and reads the walls and
  the \<^verbatim>\<open>read()\<close> instance from the field as it is when the pass starts.
\<close>

definition diffuseCell :: "Field \<Rightarrow> nat \<Rightarrow> nat \<Rightarrow> ColorF Grid2D \<Rightarrow> ColorF Grid2D option" where
  "diffuseCell f yy xx wr = do {
     w \<leftarrow> isWall f (int xx, int yy);
     if w then cell_put wr (int xx, int yy) Black
     else do {
       maxBrightness \<leftarrow> forM (diffuseNeighbor f xx yy) [0..<8] Black;
       own \<leftarrow> cell_at (read (m_brightness f)) (int xx, int yy);
       old \<leftarrow> cell_at wr (int xx, int yy);
       cell_put wr (int xx, int yy)
         (old\<lparr>chan_r := max (chan_r own) (chan_r maxBrightness),
              chan_g := max (chan_g own) (chan_g maxBrightness),
              chan_b := max (chan_b own) (chan_b maxBrightness)\<rparr>)
     }
   }"

definition stepLightDiffusion :: "Field \<Rightarrow> Field option" where
  "stepLightDiffusion f = do {
     wr \<leftarrow> forM (\<lambda>yy. forM (diffuseCell f yy) [0..<width (read (m_brightness f))])
            [0..<height (read (m_brightness f))] (write' (m_brightness f));
     Some (f\<lparr>m_brightness := flip (write_assign wr (m_brightness f))\<rparr>)
   }"

text \<open>\<open>n\<close> sub-steps in a row.\<close>

fun diffusion :: "nat \<Rightarrow> Field \<Rightarrow> Field option" where
  "diffusion 0 f = Some f"
| "diffusion (Suc n) f = (case stepLightDiffusion f of None \<Rightarrow> None | Some f' \<Rightarrow> diffusion n f')"

subsection \<open>Field: one frame\<close>

text \<open>The frame up to the flip that makes the stamped buffer the one \<^verbatim>\<open>read()\<close> returns.\<close>

definition seedFrame :: "(RectF \<Rightarrow> Line \<Rightarrow> bool) \<Rightarrow> Input \<Rightarrow> Field \<Rightarrow> Field option" where
  "seedFrame intersects inp f = do {
     f2 \<leftarrow> editWalls inp (resetBrightness f);
     f3 \<leftarrow> forM (updateLight intersects inp) [0..<length (m_lightPos f2)] f2;
     Some (f3\<lparr>m_brightness := flip (m_brightness f3)\<rparr>)
   }"

definition update :: "(RectF \<Rightarrow> Line \<Rightarrow> bool) \<Rightarrow> Input \<Rightarrow> Field \<Rightarrow> Field option" where
  "update intersects inp f = do {
     f4 \<leftarrow> seedFrame intersects inp f;
     diffusion 30 f4
   }"

subsection \<open>Shapes of grids and the vocabulary of the properties\<close>

definition rect :: "'a Grid2D \<Rightarrow> nat \<Rightarrow> nat \<Rightarrow> bool" where
  "rect g w h = (length g = h \<and> (\<forall>yy<h. length (g ! yy) = w))"

definition fieldDims :: "Field \<Rightarrow> nat \<Rightarrow> nat \<Rightarrow> bool" where
  "fieldDims f w h =
     (DoubleBuffer_ok (m_brightness f) \<and> rect (m_isWall f) w h
      \<and> rect (read (m_brightness f)) w h \<and> rect (write' (m_brightness f)) w h)"

definition cell :: "'a Grid2D \<Rightarrow> Point \<Rightarrow> 'a" where
  "cell g p = g ! nat (snd p) ! nat (fst p)"

definition wallAt :: "Field \<Rightarrow> Point \<Rightarrow> bool" where
  "wallAt f p = (isWall f p = Some True)"

definition offsets8 :: "Point list" where
  "offsets8 = filter (\<lambda>d. d \<noteq> (0, 0)) (List.product [-1, 0, 1] [-1, 0, 1])"

definition diagonal :: "Point \<Rightarrow> bool" where
  "diagonal d = (fst d \<noteq> 0 \<and> snd d \<noteq> 0)"

definition attenuation_of :: "Point \<Rightarrow> real" where
  "attenuation_of d = (if diagonal d then (9 / 10) powr sqrt 2 else 9 / 10)"

definition cornerBlocked :: "Field \<Rightarrow> Point \<Rightarrow> Point \<Rightarrow> bool" where
  "cornerBlocked f p d =
     (diagonal d \<and> wallAt f (fst p + fst d, snd p) \<and> wallAt f (fst p, snd p + snd d))"

definition contributes :: "Field \<Rightarrow> Point \<Rightarrow> Point \<Rightarrow> bool" where
  "contributes f p d = (isValid (read (m_brightness f)) (padd p d) \<and> \<not> cornerBlocked f p d)"

definition contribution :: "Field \<Rightarrow> channel \<Rightarrow> Point \<Rightarrow> Point \<Rightarrow> real" where
  "contribution f ch p d = chan ch (cell (read (m_brightness f)) (padd p d)) * attenuation_of d"

definition neighborContributions :: "Field \<Rightarrow> channel \<Rightarrow> Point \<Rightarrow> real list" where
  "neighborContributions f ch p = map (contribution f ch p) (filter (contributes f p) offsets8)"

text \<open>What a pass stores in a cell, given what the cell of the written grid held before.\<close>

definition newCell :: "Field \<Rightarrow> Point \<Rightarrow> ColorF \<Rightarrow> ColorF \<Rightarrow> bool" where
  "newCell f p old v =
     (if wallAt f p then v = Black
      else isWall f p = Some False \<and> isValid (read (m_brightness f)) p
        \<and> chan_a v = chan_a old
        \<and> (\<forall>ch. chan ch v = max (chan ch (cell (read (m_brightness f)) p))
                              (Max (set (0 # neighborContributions f ch p)))))"

definition shape :: "'a Grid2D \<Rightarrow> nat \<times> (nat \<Rightarrow> nat)" where
  "shape g = (length g, \<lambda>yy. length (g ! yy))"

text \<open>The outer ring of the wall grid is solid.\<close>

definition ringWalls :: "Field \<Rightarrow> nat \<Rightarrow> nat \<Rightarrow> bool" where
  "ringWalls f w h =
     (\<forall>xx<w. \<forall>yy<h. (xx = 0 \<or> yy = 0 \<or> xx + 1 = w \<or> yy + 1 = h) \<longrightarrow> m_isWall f ! yy ! xx = FieldWall)"

definition litField :: Field where
  "litField =
     \<lparr>m_field = \<lparr>image_width = 96, image_height = 96\<rparr>,
      m_isWall = [[True, True, True], [True, False, True], [True, True, True]],
      m_brightness =
        \<lparr>m_buffer =
           [[[\<lparr>chan_r = 1, chan_g = 1, chan_b = 1, chan_a = 1\<rparr>, Black, Black],
             [Black, \<lparr>chan_r = 1, chan_g = 1 / 2, chan_b = 0, chan_a = 1\<rparr>, Black],
             [Black, Black, Black]],
            [[Black, Black, Black], [Black, Black, Black], [Black, Black, Black]]],
         m_currentWriteBuffer = 1\<rparr>,
      m_lightPos = [], m_lightColor = [], m_velocity = []\<rparr>"

definition openField :: Field where
  "openField =
     \<lparr>m_field = \<lparr>image_width = 32, image_height = 32\<rparr>,
      m_isWall = [[FieldSpace]],
      m_brightness = DoubleBuffer_init [[Black]],
      m_lightPos = [], m_lightColor = [], m_velocity = []\<rparr>"

definition centerLightField :: Field where
  "centerLightField =
     \<lparr>m_field = \<lparr>image_width = 96, image_height = 96\<rparr>,
      m_isWall = [[True, True, True], [True, False, True], [True, True, True]],
      m_brightness = DoubleBuffer_init (Grid2D_fill 3 3 Black),
      m_lightPos = [\<lparr>center = (48, 48), radius = 16\<rparr>],
      m_lightColor = [\<lparr>chan_r = 1, chan_g = 1, chan_b = 1, chan_a = 1\<rparr>],
      m_velocity = [(0, 0)]\<rparr>"

definition paintInput :: Input where
  "paintInput =
     \<lparr>mousePos = (48, 48), mousePosF = (48, 48), mouseL = True, mouseR = False,
      mouseM = False, keySpace = True, randomVec = (\<lambda>i. (0, 0))\<rparr>"

definition paintedField :: Field where
  "paintedField =
     \<lparr>m_field = \<lparr>image_width = 96, image_height = 96\<rparr>,
      m_isWall = [[True, True, True], [True, True, True], [True, True, True]],
      m_brightness =
        \<lparr>m_buffer =
           [[[Black, Black, Black], [Black, Black, Black], [Black, Black, Black]],
            [[Black, Black, Black],
             [Black, \<lparr>chan_r = 1, chan_g = 1, chan_b = 1, chan_a = 1\<rparr>, Black],
             [Black, Black, Black]]],
         m_currentWriteBuffer = 0\<rparr>,
      m_lightPos = [\<lparr>center = (48, 48), radius = 16\<rparr>],
      m_lightColor = [\<lparr>chan_r = 1, chan_g = 1, chan_b = 1, chan_a = 1\<rparr>],
      m_velocity = [(0, 0)]\<rparr>"

definition editedField :: Field where
  "editedField =
     \<lparr>m_field = \<lparr>image_width = 96, image_height = 96\<rparr>,
      m_isWall = [[True, True, True], [True, True, True], [True, True, True]],
      m_brightness =
        \<lparr>m_buffer = [Grid2D_fill 3 3 Black, Grid2D_fill 3 3 Black], m_currentWriteBuffer = 1\<rparr>,
      m_lightPos = [\<lparr>center = (48, 48), radius = 16\<rparr>],
      m_lightColor = [\<lparr>chan_r = 1, chan_g = 1, chan_b = 1, chan_a = 1\<rparr>],
      m_velocity = [(0, 0)]\<rparr>"

definition darkField :: Field where
  "darkField =
     \<lparr>m_field = \<lparr>image_width = 96, image_height = 96\<rparr>,
      m_isWall = [[True, True, True], [True, True, True], [True, True, True]],
      m_brightness =
        \<lparr>m_buffer =
           [[[Black, Black, Black], [Black, Black, Black], [Black, Black, Black]],
            [[Black, Black, Black],
             [Black, \<lparr>chan_r = 1, chan_g = 1, chan_b = 1, chan_a = 1\<rparr>, Black],
             [Black, Black, Black]]],
         m_currentWriteBuffer = 1\<rparr>,
      m_lightPos = [\<lparr>center = (48, 48), radius = 16\<rparr>],
      m_lightColor = [\<lparr>chan_r = 1, chan_g = 1, chan_b = 1, chan_a = 1\<rparr>],
      m_velocity = [(0, 0)]\<rparr>"

text \<open>
  Whether neighbour \<open>j\<close> of the cell \<open>gridA\<close> collides with the segment: it is a cell of the
  grid, a wall, and its rectangle, widened by 2, meets the segment; \<open>u\<close> is the side of a
  cell in pixels.
\<close>

definition hitAt ::
  "(RectF \<Rightarrow> Line \<Rightarrow> bool) \<Rightarrow> Field \<Rightarrow> int \<Rightarrow> Line \<Rightarrow> Point \<Rightarrow> nat \<Rightarrow> bool" where
  "hitAt intersects f u moveSegment gridA j =
     (let n = padd gridA (neighbors_update ! j)
      in isValid (m_isWall f) n \<and> cell (m_isWall f) n = FieldWall
         \<and> intersects (stretched (toRectF (u * fst n, u * snd n, u, u)) 2.0) moveSegment)"

text \<open>
  The reflection at the neighbour with offset \<open>d\<close>, in the words of the claim: the axes
  on which the neighbour is displaced are inverted and damped by the restitution, the
  other axis is kept.
\<close>

definition reflectBy :: "Point \<Rightarrow> Vec2 \<Rightarrow> Vec2" where
  "reflectBy d v =
     ((if fst d \<noteq> 0 then - restitution * fst v else fst v),
      (if snd d \<noteq> 0 then - restitution * snd v else snd v))"

text \<open>
  The neighbours whose reflection is applied, given which of them collide. As the claim
  states it: every colliding cardinal neighbour, and every colliding diagonal neighbour
  when no cardinal one collides.
\<close>

definition claimedReflections :: "(nat \<Rightarrow> bool) \<Rightarrow> nat list" where
  "claimedReflections hit =
     (let cs = filter hit [0..<4] in if cs \<noteq> [] then cs else filter hit [4..<8])"

text \<open>As the loop does it: of the diagonal neighbours only the first colliding one.\<close>

definition appliedReflections :: "(nat \<Rightarrow> bool) \<Rightarrow> nat list" where
  "appliedReflections hit =
     (let cs = filter hit [0..<4] in if cs \<noteq> [] then cs else take 1 (filter hit [4..<8]))"

text \<open>
  A test that holds when an end point of the segment lies in the rectangle; the library's
  intersection test holds for every such pair.
\<close>

definition endpointInside :: "RectF \<Rightarrow> Line \<Rightarrow> bool" where
  "endpointInside r seg = (case r of (rx, ry, rw, rh) \<Rightarrow>
     (rx \<le> fst (fst seg) \<and> fst (fst seg) \<le> rx + rw \<and> ry \<le> snd (fst seg) \<and> snd (fst seg) \<le> ry + rh)
     \<or> (rx \<le> fst (snd seg) \<and> fst (snd seg) \<le> rx + rw \<and> ry \<le> snd (snd seg) \<and> snd (snd seg) \<le> ry + rh))"

definition cornerField :: Field where
  "cornerField =
     \<lparr>m_field = \<lparr>image_width = 160, image_height = 160\<rparr>,
      m_isWall = [[True, True, True, True, True],
                  [True, True, False, True, True],
                  [True, False, False, False, True],
                  [True, False, False, False, True],
                  [True, True, True, True, True]],
      m_brightness = DoubleBuffer_init (Grid2D_fill 5 5 Black),
      m_lightPos = [\<lparr>center = (65, 65), radius = 16\<rparr>],
      m_lightColor = [\<lparr>chan_r = 1, chan_g = 1, chan_b = 1, chan_a = 1\<rparr>],
      m_velocity = [(1800, -120)]\<rparr>"

text \<open>Whether \<open>(xx, yy)\<close> lies on the outer ring of a grid of \<open>w\<close> by \<open>h\<close> cells.\<close>

definition onRing :: "nat \<Rightarrow> nat \<Rightarrow> nat \<Rightarrow> nat \<Rightarrow> bool" where
  "onRing w h xx yy = (xx = 0 \<or> yy = 0 \<or> xx + 1 = w \<or> yy + 1 = h)"

definition initialField :: "Image \<Rightarrow> nat \<Rightarrow> Field" where
  "initialField img unitPixel =
     \<lparr>m_field = img,
      m_isWall = Grid2D_fill (image_width img div unitPixel) (image_height img div unitPixel) FieldSpace,
      m_brightness = DoubleBuffer_init
         (Grid2D_fill (image_width img div unitPixel) (image_height img div unitPixel) Black),
      m_lightPos = [], m_lightColor = [], m_velocity = []\<rparr>"

definition eraseInput :: Input where
  "eraseInput =
     \<lparr>mousePos = (5, 5), mousePosF = (5, 5), mouseL = False, mouseR = True,
      mouseM = False, keySpace = True, randomVec = (\<lambda>i. (0, 0))\<rparr>"

definition erasedField :: Field where
  "erasedField =
     \<lparr>m_field = \<lparr>image_width = 96, image_height = 96\<rparr>,
      m_isWall = [[False, True, True], [True, False, True], [True, True, True]],
      m_brightness =
        \<lparr>m_buffer = [Grid2D_fill 3 3 Black, Grid2D_fill 3 3 Black], m_currentWriteBuffer = 1\<rparr>,
      m_lightPos = [\<lparr>center = (48, 48), radius = 16\<rparr>],
      m_lightColor = [\<lparr>chan_r = 1, chan_g = 1, chan_b = 1, chan_a = 1\<rparr>],
      m_velocity = [(0, 0)]\<rparr>"

definition erasedSeeded :: Field where
  "erasedSeeded =
     \<lparr>m_field = \<lparr>image_width = 96, image_height = 96\<rparr>,
      m_isWall = [[False, True, True], [True, False, True], [True, True, True]],
      m_brightness =
        \<lparr>m_buffer =
           [[[Black, Black, Black], [Black, Black, Black], [Black, Black, Black]],
            [[Black, Black, Black],
             [Black, \<lparr>chan_r = 1, chan_g = 1, chan_b = 1, chan_a = 1\<rparr>, Black],
             [Black, Black, Black]]],
         m_currentWriteBuffer = 0\<rparr>,
      m_lightPos = [\<lparr>center = (37177 / 774, 37177 / 774), radius = 16\<rparr>],
      m_lightColor = [\<lparr>chan_r = 1, chan_g = 1, chan_b = 1, chan_a = 1\<rparr>],
      m_velocity = [(250 / 129, 250 / 129)]\<rparr>"

section \<open>DoubleBuffer: properties\<close>

lemma DoubleBuffer_ok_init: "DoubleBuffer_ok (DoubleBuffer_init v)"
  by (simp add: DoubleBuffer_ok_def DoubleBuffer_init_def)

lemma DoubleBuffer_ok_flip: "DoubleBuffer_ok d \<Longrightarrow> DoubleBuffer_ok (flip d)"
  by (simp add: DoubleBuffer_ok_def flip_def)

lemma DoubleBuffer_ok_write_assign: "DoubleBuffer_ok d \<Longrightarrow> DoubleBuffer_ok (write_assign v d)"
  by (simp add: DoubleBuffer_ok_def write_assign_def)

lemma index_cases: "DoubleBuffer_ok d \<Longrightarrow> m_currentWriteBuffer d = 0 \<or> m_currentWriteBuffer d = 1"
  by (auto simp: DoubleBuffer_ok_def)

lemma read_flip: "DoubleBuffer_ok d \<Longrightarrow> read (flip d) = write' d"
  by (auto simp: read_def write'_def flip_def readIndex_def writeIndex_def DoubleBuffer_ok_def
      dest!: index_cases [unfolded DoubleBuffer_ok_def, OF conjI])

lemma write_flip: "DoubleBuffer_ok d \<Longrightarrow> write' (flip d) = read d"
  by (simp add: read_def write'_def flip_def readIndex_def writeIndex_def)

lemma flip_flip: "DoubleBuffer_ok d \<Longrightarrow> flip (flip d) = d"
  using index_cases [of d] by (auto simp: flip_def DoubleBuffer_ok_def)

lemma read_write_assign: "DoubleBuffer_ok d \<Longrightarrow> read (write_assign v d) = read d"
  using index_cases [of d]
  by (auto simp: read_def write_assign_def readIndex_def writeIndex_def DoubleBuffer_ok_def)

lemma write_write_assign: "DoubleBuffer_ok d \<Longrightarrow> write' (write_assign v d) = v"
  by (auto simp: write'_def write_assign_def writeIndex_def DoubleBuffer_ok_def)

section \<open>Loops and grids\<close>

lemma forM_append:
  "forM body (as @ bs) s = (case forM body as s of None \<Rightarrow> None | Some s' \<Rightarrow> forM body bs s')"
  by (induction as arbitrary: s) (auto split: option.splits)

text \<open>A loop whose round \<open>i\<close> only changes the places \<open>keys i\<close> of the state.\<close>

lemma forM_places:
  assumes "forM body is s = Some s'"
    and "distinct is"
    and "\<And>i j. i \<in> set is \<Longrightarrow> j \<in> set is \<Longrightarrow> i \<noteq> j \<Longrightarrow> keys i \<inter> keys j = {}"
    and "\<And>i t t'. i \<in> set is \<Longrightarrow> sh t = sh s \<Longrightarrow> body i t = Some t' \<Longrightarrow>
           sh t' = sh t
           \<and> (\<forall>k. (k \<in> keys i \<longrightarrow> Q k (get k t) (get k t')) \<and> (k \<notin> keys i \<longrightarrow> get k t' = get k t))"
  shows "sh s' = sh s
     \<and> (\<forall>k. (k \<in> (\<Union>i\<in>set is. keys i) \<longrightarrow> Q k (get k s) (get k s'))
           \<and> (k \<notin> (\<Union>i\<in>set is. keys i) \<longrightarrow> get k s' = get k s))"
  using assms
proof (induction "is" arbitrary: s)
  case Nil
  then show ?case by simp
next
  case (Cons i "is")
  from Cons.prems(1) obtain t where t: "body i s = Some t" and rest: "forM body is t = Some s'"
    by (auto split: option.splits)
  have st: "sh t = sh s
           \<and> (\<forall>k. (k \<in> keys i \<longrightarrow> Q k (get k s) (get k t)) \<and> (k \<notin> keys i \<longrightarrow> get k t = get k s))"
    using Cons.prems(4) [of i s t] t by simp
  have ih: "sh s' = sh t
     \<and> (\<forall>k. (k \<in> (\<Union>i\<in>set is. keys i) \<longrightarrow> Q k (get k t) (get k s'))
           \<and> (k \<notin> (\<Union>i\<in>set is. keys i) \<longrightarrow> get k s' = get k t))"
  proof (rule Cons.IH [OF rest])
    show "distinct is" using Cons.prems(2) by simp
    show "\<And>i j. i \<in> set is \<Longrightarrow> j \<in> set is \<Longrightarrow> i \<noteq> j \<Longrightarrow> keys i \<inter> keys j = {}"
      using Cons.prems(3) by simp
    show "\<And>j u u'. j \<in> set is \<Longrightarrow> sh u = sh t \<Longrightarrow> body j u = Some u' \<Longrightarrow>
           sh u' = sh u
           \<and> (\<forall>k. (k \<in> keys j \<longrightarrow> Q k (get k u) (get k u')) \<and> (k \<notin> keys j \<longrightarrow> get k u' = get k u))"
    proof -
      fix j u u' assume j: "j \<in> set is" and u: "sh u = sh t" "body j u = Some u'"
      from u st have "sh u = sh s" by simp
      with Cons.prems(4) [of j u u'] j u
      show "sh u' = sh u
           \<and> (\<forall>k. (k \<in> keys j \<longrightarrow> Q k (get k u) (get k u')) \<and> (k \<notin> keys j \<longrightarrow> get k u' = get k u))"
        by simp
    qed
  qed
  have disj: "\<And>j k. j \<in> set is \<Longrightarrow> k \<in> keys j \<Longrightarrow> k \<notin> keys i"
  proof -
    fix j k assume j: "j \<in> set is" and k: "k \<in> keys j"
    from Cons.prems(2) j have "i \<noteq> j" by auto
    with Cons.prems(3) [of i j] j have "keys i \<inter> keys j = {}" by simp
    with k show "k \<notin> keys i" by auto
  qed
  show ?case
  proof (intro conjI allI impI)
    show "sh s' = sh s" using st ih by simp
  next
    fix k assume "k \<in> (\<Union>i\<in>set (i # is). keys i)"
    then consider (a) "k \<in> keys i" "k \<notin> (\<Union>i\<in>set is. keys i)" | (b) "k \<in> (\<Union>i\<in>set is. keys i)"
      by auto
    then show "Q k (get k s) (get k s')"
    proof cases
      case a
      with ih have "get k s' = get k t" by blast
      moreover from st a have "Q k (get k s) (get k t)" by blast
      ultimately show ?thesis by simp
    next
      case b
      then obtain j where j: "j \<in> set is" "k \<in> keys j" by auto
      then have "k \<notin> keys i" by (rule disj)
      with st have "get k t = get k s" by blast
      moreover from ih b have "Q k (get k t) (get k s')" by blast
      ultimately show ?thesis by simp
    qed
  next
    fix k assume "k \<notin> (\<Union>i\<in>set (i # is). keys i)"
    then have "k \<notin> keys i" "k \<notin> (\<Union>i\<in>set is. keys i)" by auto
    with st ih show "get k s' = get k s" by metis
  qed
qed

lemma forM_total:
  assumes "I s"
    and "\<And>i t. i \<in> set is \<Longrightarrow> I t \<Longrightarrow> \<exists>t'. body i t = Some t' \<and> I t'"
  shows "\<exists>s'. forM body is s = Some s' \<and> I s'"
  using assms
proof (induction "is" arbitrary: s)
  case Nil
  then show ?case by simp
next
  case (Cons i "is")
  from Cons.prems obtain t where t: "body i s = Some t" "I t" by fastforce
  from Cons.IH [OF t(2)] Cons.prems(2) obtain s' where "forM body is t = Some s'" "I s'"
    by fastforce
  with t show ?case by simp
qed

lemma isValid_rect:
  "rect g w h \<Longrightarrow> isValid g p \<longleftrightarrow> 0 \<le> fst p \<and> fst p < int w \<and> 0 \<le> snd p \<and> snd p < int h"
  by (auto simp: rect_def isValid_def)

lemma cell_at_Some: "cell_at g p = Some v \<longleftrightarrow> isValid g p \<and> v = cell g p"
  by (auto simp: cell_at_def cell_def)

lemma cell_put_Some:
  "cell_put g (int xx, int yy) v = Some g' \<longleftrightarrow>
     yy < length g \<and> xx < length (g ! yy) \<and> g' = g[yy := (g ! yy)[xx := v]]"
  by (auto simp: cell_put_def isValid_def)

lemma neighbors_table:
  assumes "i < 8"
  shows "(i = 0 \<or> i = 2 \<or> i = 5 \<or> i = 7) = diagonal (neighbors_diffusion ! i)"
    and "attenuations ! i = attenuation_of (neighbors_diffusion ! i)"
proof -
  from assms have "i = 0 \<or> i = 1 \<or> i = 2 \<or> i = 3 \<or> i = 4 \<or> i = 5 \<or> i = 6 \<or> i = 7" by arith
  then show "(i = 0 \<or> i = 2 \<or> i = 5 \<or> i = 7) = diagonal (neighbors_diffusion ! i)"
    by (elim disjE) (simp_all add: neighbors_diffusion_def diagonal_def)
  from \<open>i = 0 \<or> i = 1 \<or> i = 2 \<or> i = 3 \<or> i = 4 \<or> i = 5 \<or> i = 6 \<or> i = 7\<close>
  show "attenuations ! i = attenuation_of (neighbors_diffusion ! i)"
    by (elim disjE)
      (simp_all add: neighbors_diffusion_def diagonal_def attenuations_def attenuation_of_def
        attenuationDiagonal_def attenuationAdjacent_def sqrt2_def)
qed

lemma set_neighbors_diffusion: "set neighbors_diffusion = set offsets8"
  by (simp add: neighbors_diffusion_def offsets8_def) blast

lemma diffuseNeighbor_Some:
  assumes "i < 8" and "diffuseNeighbor f xx yy i mb = Some mb'"
  shows "chan ch mb' =
      (if contributes f (int xx, int yy) (neighbors_diffusion ! i)
       then max (chan ch mb) (contribution f ch (int xx, int yy) (neighbors_diffusion ! i))
       else chan ch mb)"
proof -
  let ?d = "neighbors_diffusion ! i"
  let ?p = "(int xx, int yy)"
  obtain blocked where b: "(if diagonal ?d
        then do {
          w1 \<leftarrow> isWall f (int xx + fst ?d, int yy);
          if w1 then isWall f (int xx, int yy + snd ?d) else Some False
        }
        else Some False) = Some blocked"
    and r: "(if blocked then Some mb
     else
       if isValid (read (m_brightness f)) (padd ?p ?d)
          then do {
            s \<leftarrow> cell_at (read (m_brightness f)) (padd ?p ?d);
            Some (mb\<lparr>chan_r := max (chan_r mb) (chan_r s * attenuation_of ?d),
                                chan_g := max (chan_g mb) (chan_g s * attenuation_of ?d),
                                chan_b := max (chan_b mb) (chan_b s * attenuation_of ?d)\<rparr>)
          }
          else Some mb) = Some mb'"
    using assms(2)
    unfolding diffuseNeighbor_def Let_def neighbors_table [OF assms(1)] bind_eq_Some_conv
    by blast
  have bl: "blocked = cornerBlocked f ?p ?d"
    using b by (auto simp: cornerBlocked_def wallAt_def split: if_splits Option.bind_splits)
  show ?thesis
    using r bl
    by (cases ch)
       (auto simp: contributes_def contribution_def cell_at_Some split: if_splits Option.bind_splits)
qed

lemma Max_insert_max:
  fixes a c :: real
  assumes "finite S"
  shows "Max (insert (max a c) S) = Max (insert a (insert c S))"
proof (cases "S = {}")
  case True
  then show ?thesis by simp
next
  case False
  with assms show ?thesis by (simp add: max.assoc)
qed

lemma neighbors_loop:
  assumes "forM (diffuseNeighbor f xx yy) is mb = Some mb'" and "\<forall>i\<in>set is. i < 8"
  shows "chan ch mb' = Max (insert (chan ch mb)
           ((\<lambda>i. contribution f ch (int xx, int yy) (neighbors_diffusion ! i))
              ` {i \<in> set is. contributes f (int xx, int yy) (neighbors_diffusion ! i)}))"
  using assms
proof (induction "is" arbitrary: mb)
  case Nil
  then show ?case by simp
next
  case (Cons i "is")
  let ?p = "(int xx, int yy)"
  let ?c = "\<lambda>i. contribution f ch ?p (neighbors_diffusion ! i)"
  let ?S = "?c ` {j \<in> set is. contributes f ?p (neighbors_diffusion ! j)}"
  from Cons.prems(1) obtain t where t: "diffuseNeighbor f xx yy i mb = Some t"
    and rest: "forM (diffuseNeighbor f xx yy) is t = Some mb'"
    by (auto split: option.splits)
  from Cons.prems(2) have i: "i < 8" and rest8: "\<forall>i\<in>set is. i < 8" by simp_all
  have ih: "chan ch mb' = Max (insert (chan ch t) ?S)"
    by (rule Cons.IH [OF rest rest8])
  have fin: "finite ?S" by simp
  show ?case
  proof (cases "contributes f ?p (neighbors_diffusion ! i)")
    case True
    then have "chan ch t = max (chan ch mb) (?c i)"
      using diffuseNeighbor_Some [OF i t, of ch] by simp
    moreover have "{j \<in> set (i # is). contributes f ?p (neighbors_diffusion ! j)}
        = insert i {j \<in> set is. contributes f ?p (neighbors_diffusion ! j)}"
      using True by auto
    ultimately show ?thesis
      using ih Max_insert_max [OF fin, of "chan ch mb" "?c i"] by simp
  next
    case False
    then have "chan ch t = chan ch mb"
      using diffuseNeighbor_Some [OF i t, of ch] by simp
    moreover have "{j \<in> set (i # is). contributes f ?p (neighbors_diffusion ! j)}
        = {j \<in> set is. contributes f ?p (neighbors_diffusion ! j)}"
      using False by auto
    ultimately show ?thesis using ih by simp
  qed
qed

lemma maxBrightness_loop:
  assumes "forM (diffuseNeighbor f xx yy) [0..<8] Black = Some mb"
  shows "chan ch mb = Max (set (0 # neighborContributions f ch (int xx, int yy)))"
proof -
  let ?p = "(int xx, int yy)"
  have len: "length neighbors_diffusion = 8" by (simp add: neighbors_diffusion_def)
  have "(\<lambda>i. contribution f ch ?p (neighbors_diffusion ! i))
              ` {i \<in> set [0..<8]. contributes f ?p (neighbors_diffusion ! i)}
        = contribution f ch ?p ` {d \<in> set neighbors_diffusion. contributes f ?p d}"
  proof -
    have "set neighbors_diffusion = (\<lambda>i. neighbors_diffusion ! i) ` {0..<8}"
      using len by (auto simp: set_conv_nth)
    then show ?thesis by auto
  qed
  also have "\<dots> = set (neighborContributions f ch ?p)"
    by (simp add: neighborContributions_def set_neighbors_diffusion)
  finally have eq: "(\<lambda>i. contribution f ch ?p (neighbors_diffusion ! i))
              ` {i \<in> set [0..<8]. contributes f ?p (neighbors_diffusion ! i)}
        = set (neighborContributions f ch ?p)" .
  have "chan ch Black = 0" by (cases ch) (simp_all add: Black_def)
  with neighbors_loop [OF assms, of ch] eq show ?thesis by simp
qed

lemma diffuseCell_Some:
  assumes "diffuseCell f yy xx wr = Some wr'"
  shows "yy < length wr \<and> xx < length (wr ! yy)
     \<and> (\<exists>v. wr' = wr[yy := (wr ! yy)[xx := v]] \<and> newCell f (int xx, int yy) (wr ! yy ! xx) v)"
proof -
  let ?p = "(int xx, int yy)"
  from assms obtain w where w: "isWall f ?p = Some w"
    by (auto simp: diffuseCell_def split: Option.bind_splits)
  show ?thesis
  proof (cases w)
    case True
    with assms w show ?thesis
      by (auto simp: diffuseCell_def cell_put_Some newCell_def wallAt_def)
  next
    case False
    with assms w obtain mb where mb: "forM (diffuseNeighbor f xx yy) [0..<8] Black = Some mb"
      and v: "isValid (read (m_brightness f)) ?p" "isValid wr ?p"
      and put: "cell_put wr ?p
         ((cell wr ?p)\<lparr>chan_r := max (chan_r (cell (read (m_brightness f)) ?p)) (chan_r mb),
              chan_g := max (chan_g (cell (read (m_brightness f)) ?p)) (chan_g mb),
              chan_b := max (chan_b (cell (read (m_brightness f)) ?p)) (chan_b mb)\<rparr>) = Some wr'"
      by (auto simp: diffuseCell_def cell_at_Some split: Option.bind_splits)
    let ?v = "(cell wr ?p)\<lparr>chan_r := max (chan_r (cell (read (m_brightness f)) ?p)) (chan_r mb),
              chan_g := max (chan_g (cell (read (m_brightness f)) ?p)) (chan_g mb),
              chan_b := max (chan_b (cell (read (m_brightness f)) ?p)) (chan_b mb)\<rparr>"
    have ch: "chan ch ?v = max (chan ch (cell (read (m_brightness f)) ?p))
                              (Max (set (0 # neighborContributions f ch ?p)))" for ch
      using maxBrightness_loop [OF mb, of ch] by (cases ch) simp_all
    have "newCell f ?p (wr ! yy ! xx) ?v"
      unfolding newCell_def using w False ch v by (simp add: wallAt_def cell_def)
    with put show ?thesis
      unfolding cell_put_Some by blast
  qed
qed

lemma shape_update: "shape (g[yy := (g ! yy)[xx := v]]) = shape g"
proof -
  have "length (g[yy := (g ! yy)[xx := v]] ! y) = length (g ! y)" for y
    by (cases "yy < length g") (simp_all add: nth_list_update list_update_beyond)
  then show ?thesis by (simp add: shape_def)
qed

lemma rect_shape: "shape g' = shape g \<Longrightarrow> rect g' w h = rect g w h"
  by (auto simp: shape_def rect_def fun_eq_iff)

lemma row_loop:
  assumes "forM (diffuseCell f yy) [0..<w] wr = Some wr'"
  shows "shape wr' = shape wr
     \<and> (\<forall>k. (k \<in> (\<Union>xx\<in>set [0..<w]. {(xx, yy)}) \<longrightarrow>
               newCell f (int (fst k), int (snd k)) (wr ! snd k ! fst k) (wr' ! snd k ! fst k))
          \<and> (k \<notin> (\<Union>xx\<in>set [0..<w]. {(xx, yy)}) \<longrightarrow> wr' ! snd k ! fst k = wr ! snd k ! fst k))"
proof (rule forM_places [OF assms, where sh = shape and get = "\<lambda>k g. g ! snd k ! fst k"
      and Q = "\<lambda>k. newCell f (int (fst k), int (snd k))" and keys = "\<lambda>xx. {(xx, yy)}"])
  show "distinct [0..<w]" by simp
  show "\<And>i j. i \<in> set [0..<w] \<Longrightarrow> j \<in> set [0..<w] \<Longrightarrow> i \<noteq> j \<Longrightarrow> {(i, yy)} \<inter> {(j, yy)} = {}"
    by simp
  fix xx t t'
  assume "diffuseCell f yy xx t = Some t'"
  from diffuseCell_Some [OF this] obtain v where
    v: "yy < length t" "xx < length (t ! yy)" "t' = t[yy := (t ! yy)[xx := v]]"
       "newCell f (int xx, int yy) (t ! yy ! xx) v"
    by blast
  show "shape t' = shape t \<and>
       (\<forall>k. (k \<in> {(xx, yy)} \<longrightarrow> newCell f (int (fst k), int (snd k)) (t ! snd k ! fst k) (t' ! snd k ! fst k)) \<and>
            (k \<notin> {(xx, yy)} \<longrightarrow> t' ! snd k ! fst k = t ! snd k ! fst k))"
    using v by (auto simp: shape_update nth_list_update)
qed

lemma grid_loop:
  assumes "forM (\<lambda>yy. forM (diffuseCell f yy) [0..<w]) [0..<h] wr = Some wr'"
  shows "shape wr' = shape wr
     \<and> (\<forall>xx<w. \<forall>yy<h. newCell f (int xx, int yy) (wr ! yy ! xx) (wr' ! yy ! xx))"
proof -
  have "shape wr' = shape wr
     \<and> (\<forall>k. (k \<in> (\<Union>yy\<in>set [0..<h]. (\<Union>xx\<in>set [0..<w]. {(xx, yy)})) \<longrightarrow>
               newCell f (int (fst k), int (snd k)) (wr ! snd k ! fst k) (wr' ! snd k ! fst k))
          \<and> (k \<notin> (\<Union>yy\<in>set [0..<h]. (\<Union>xx\<in>set [0..<w]. {(xx, yy)})) \<longrightarrow>
               wr' ! snd k ! fst k = wr ! snd k ! fst k))"
  proof (rule forM_places [OF assms, where sh = shape and get = "\<lambda>k g. g ! snd k ! fst k"
      and Q = "\<lambda>k. newCell f (int (fst k), int (snd k))"
      and keys = "\<lambda>yy. (\<Union>xx\<in>set [0..<w]. {(xx, yy)})"])
    show "distinct [0..<h]" by simp
    show "\<And>i j. i \<in> set [0..<h] \<Longrightarrow> j \<in> set [0..<h] \<Longrightarrow> i \<noteq> j \<Longrightarrow>
        (\<Union>xx\<in>set [0..<w]. {(xx, i)}) \<inter> (\<Union>xx\<in>set [0..<w]. {(xx, j)}) = {}"
      by auto
    fix yy t t'
    assume "forM (diffuseCell f yy) [0..<w] t = Some t'"
    from row_loop [OF this]
    show "shape t' = shape t \<and>
       (\<forall>k. (k \<in> (\<Union>xx\<in>set [0..<w]. {(xx, yy)}) \<longrightarrow>
               newCell f (int (fst k), int (snd k)) (t ! snd k ! fst k) (t' ! snd k ! fst k)) \<and>
            (k \<notin> (\<Union>xx\<in>set [0..<w]. {(xx, yy)}) \<longrightarrow> t' ! snd k ! fst k = t ! snd k ! fst k))" .
  qed
  then show ?thesis by force
qed

section \<open>The diffusion sub-step\<close>

lemma rect_width: "rect g w h \<Longrightarrow> 0 < h \<Longrightarrow> width g = w"
  by (auto simp: rect_def width_def hd_conv_nth)

lemma rect_height: "rect g w h \<Longrightarrow> height g = h"
  by (simp add: rect_def height_def)

lemma isWall_Some: "isWall f p = Some b \<longleftrightarrow> isValid (m_isWall f) p \<and> b = (cell (m_isWall f) p = FieldWall)"
  by (auto simp: isWall_def cell_at_def cell_def)

lemma isWall_None: "isWall f p = None \<longleftrightarrow> \<not> isValid (m_isWall f) p"
  by (auto simp: isWall_def cell_at_def)

lemma step_unfold:
  "stepLightDiffusion f = Some f' \<longleftrightarrow>
     (\<exists>wr. forM (\<lambda>yy. forM (diffuseCell f yy) [0..<width (read (m_brightness f))])
            [0..<height (read (m_brightness f))] (write' (m_brightness f)) = Some wr
        \<and> f' = f\<lparr>m_brightness := flip (write_assign wr (m_brightness f))\<rparr>)"
  by (auto simp: stepLightDiffusion_def split: Option.bind_splits)

lemma step_Some:
  assumes "fieldDims f w h" and "stepLightDiffusion f = Some f'"
  shows "fieldDims f' w h
    \<and> m_isWall f' = m_isWall f
    \<and> m_field f' = m_field f
    \<and> write' (m_brightness f') = read (m_brightness f)
    \<and> (\<forall>xx<w. \<forall>yy<h. newCell f (int xx, int yy) (write' (m_brightness f) ! yy ! xx)
                           (read (m_brightness f') ! yy ! xx))"
proof -
  define b where "b = m_brightness f"
  from assms(1) have ok: "DoubleBuffer_ok b" and rw: "rect (m_isWall f) w h"
    and rr: "rect (read b) w h" and rwr: "rect (write' b) w h"
    by (simp_all add: fieldDims_def b_def)
  from assms(2) obtain wr where
    loop: "forM (\<lambda>yy. forM (diffuseCell f yy) [0..<width (read b)])
            [0..<height (read b)] (write' b) = Some wr"
    and f': "f' = f\<lparr>m_brightness := flip (write_assign wr b)\<rparr>"
    unfolding step_unfold b_def by blast
  have b': "m_brightness f' = flip (write_assign wr b)" using f' by simp
  have w': "m_isWall f' = m_isWall f" and i': "m_field f' = m_field f" using f' by simp_all
  have h: "height (read b) = h" using rr by (rule rect_height)
  have okw: "DoubleBuffer_ok (write_assign wr b)" using ok by (rule DoubleBuffer_ok_write_assign)
  have "read (flip (write_assign wr b)) = write' (write_assign wr b)" using okw by (rule read_flip)
  also have "\<dots> = wr" using ok by (rule write_write_assign)
  finally have rd: "read (m_brightness f') = wr" unfolding b' .
  have "write' (flip (write_assign wr b)) = read (write_assign wr b)" using okw by (rule write_flip)
  also have "\<dots> = read b" using ok by (rule read_write_assign)
  finally have wr': "write' (m_brightness f') = read b" unfolding b' .
  have cells: "\<forall>xx<w. \<forall>yy<h. newCell f (int xx, int yy) (write' b ! yy ! xx) (wr ! yy ! xx)"
  proof (intro allI impI)
    fix xx yy assume xx: "xx < w" and yy: "yy < h"
    then have "0 < h" by simp
    then have "width (read b) = w" by (rule rect_width [OF rr])
    with xx have xx': "xx < width (read b)" by simp
    from yy h have yy': "yy < height (read b)" by simp
    from grid_loop [OF loop] have
      "\<forall>xx<width (read b). \<forall>yy<height (read b).
          newCell f (int xx, int yy) (write' b ! yy ! xx) (wr ! yy ! xx)"
      by (rule conjunct2)
    with xx' yy' show "newCell f (int xx, int yy) (write' b ! yy ! xx) (wr ! yy ! xx)"
      by blast
  qed
  have sh: "shape wr = shape (write' b)" using grid_loop [OF loop] by (rule conjunct1)
  have rwr': "rect wr w h" using rwr unfolding rect_shape [OF sh] .
  have okf: "DoubleBuffer_ok (m_brightness f')" unfolding b' using okw by (rule DoubleBuffer_ok_flip)
  have r1: "rect (read (m_brightness f')) w h" unfolding rd by (rule rwr')
  have r2: "rect (write' (m_brightness f')) w h" unfolding wr' by (rule rr)
  have fd: "fieldDims f' w h"
    by (simp only: fieldDims_def w' okf rw r1 r2 simp_thms)
  from cells have cells': "\<forall>xx<w. \<forall>yy<h. newCell f (int xx, int yy)
      (write' (m_brightness f) ! yy ! xx) (read (m_brightness f') ! yy ! xx)"
    unfolding rd b_def .
  from wr' have wr'': "write' (m_brightness f') = read (m_brightness f)" unfolding b_def .
  from fd w' i' wr'' cells' show ?thesis by (intro conjI)
qed

lemma open_cell_interior:
  assumes "rect (m_isWall f) w h" "ringWalls f w h" "xx < w" "yy < h"
    and "isWall f (int xx, int yy) = Some False"
  shows "0 < xx \<and> xx + 1 < w \<and> 0 < yy \<and> yy + 1 < h"
proof -
  from assms(5) have "m_isWall f ! yy ! xx \<noteq> FieldWall"
    by (simp add: isWall_Some cell_def)
  with assms(2,3,4) have "\<not> (xx = 0 \<or> yy = 0 \<or> xx + 1 = w \<or> yy + 1 = h)"
    unfolding ringWalls_def by blast
  with assms(3,4) show ?thesis by arith
qed

lemma neighbor_offsets:
  assumes "i < 8"
  shows "fst (neighbors_diffusion ! i) \<in> {-1, 0, 1} \<and> snd (neighbors_diffusion ! i) \<in> {-1, 0, 1}"
proof -
  from assms have "i = 0 \<or> i = 1 \<or> i = 2 \<or> i = 3 \<or> i = 4 \<or> i = 5 \<or> i = 6 \<or> i = 7" by arith
  then show ?thesis by (elim disjE) (simp_all add: neighbors_diffusion_def)
qed

lemma diffuseNeighbor_total:
  assumes "rect (m_isWall f) w h" "0 < xx \<and> xx + 1 < w \<and> 0 < yy \<and> yy + 1 < h" "i < 8"
  shows "\<exists>mb'. diffuseNeighbor f xx yy i mb = Some mb'"
proof -
  let ?d = "neighbors_diffusion ! i"
  from neighbor_offsets [OF assms(3)]
  have d: "fst ?d \<in> {-1, 0, 1}" "snd ?d \<in> {-1, 0, 1}" by simp_all
  have v1: "isValid (m_isWall f) (int xx + fst ?d, int yy)"
    using assms(1,2) d(1) by (auto simp: isValid_rect)
  have v2: "isValid (m_isWall f) (int xx, int yy + snd ?d)"
    using assms(1,2) d(2) by (auto simp: isValid_rect)
  from v1 obtain w1 where w1: "isWall f (int xx + fst ?d, int yy) = Some w1"
    by (simp add: isWall_Some)
  from v2 obtain w2 where w2: "isWall f (int xx, int yy + snd ?d) = Some w2"
    by (simp add: isWall_Some)
  show ?thesis
    unfolding diffuseNeighbor_def Let_def neighbors_table [OF assms(3)] w1 w2
    by (simp add: cell_at_def)
qed

lemma diffuseCell_total:
  assumes "rect (m_isWall f) w h" "rect (read (m_brightness f)) w h" "ringWalls f w h"
    and "rect wr w h" "xx < w" "yy < h"
  shows "\<exists>wr'. diffuseCell f yy xx wr = Some wr' \<and> rect wr' w h"
proof -
  let ?p = "(int xx, int yy)"
  have vp: "isValid (m_isWall f) ?p" "isValid (read (m_brightness f)) ?p" "isValid wr ?p"
    using assms by (simp_all add: isValid_rect)
  then obtain b where b: "isWall f ?p = Some b" by (simp add: isWall_Some)
  have put: "cell_put wr ?p v = Some (wr[yy := (wr ! yy)[xx := v]])
      \<and> rect (wr[yy := (wr ! yy)[xx := v]]) w h" for v
    using vp(3) assms(4) by (simp add: cell_put_def rect_shape [OF shape_update])
  show ?thesis
  proof (cases b)
    case True
    have "diffuseCell f yy xx wr = cell_put wr ?p Black"
      using b True by (simp add: diffuseCell_def)
    with put [of Black] show ?thesis by simp
  next
    case False
    with b have int: "0 < xx \<and> xx + 1 < w \<and> 0 < yy \<and> yy + 1 < h"
      using open_cell_interior [OF assms(1,3,5,6)] by simp
    have "\<exists>mb'. forM (diffuseNeighbor f xx yy) [0..<8] Black = Some mb' \<and> True"
    proof (rule forM_total [where I = "\<lambda>_. True"])
      fix i t assume "i \<in> set [0..<8]"
      then have "i < 8" by simp
      from diffuseNeighbor_total [OF assms(1) int this, of t]
      show "\<exists>t'. diffuseNeighbor f xx yy i t = Some t' \<and> True" by simp
    qed simp
    then obtain mb where mb: "forM (diffuseNeighbor f xx yy) [0..<8] Black = Some mb" by blast
    have own: "cell_at (read (m_brightness f)) ?p = Some (cell (read (m_brightness f)) ?p)"
      and old: "cell_at wr ?p = Some (cell wr ?p)"
      using vp by (simp_all add: cell_at_Some)
    have "diffuseCell f yy xx wr = cell_put wr ?p
         ((cell wr ?p)\<lparr>chan_r := max (chan_r (cell (read (m_brightness f)) ?p)) (chan_r mb),
              chan_g := max (chan_g (cell (read (m_brightness f)) ?p)) (chan_g mb),
              chan_b := max (chan_b (cell (read (m_brightness f)) ?p)) (chan_b mb)\<rparr>)"
      unfolding diffuseCell_def b mb own old using False by simp
    with put show ?thesis by simp
  qed
qed

lemma row_total:
  assumes "rect (m_isWall f) w h" "rect (read (m_brightness f)) w h" "ringWalls f w h"
    and "yy < h" "rect (t :: ColorF Grid2D) w h" "\<forall>xx\<in>set xs. xx < w"
  shows "\<exists>t'. forM (diffuseCell f yy) xs t = Some t' \<and> rect t' w h"
  using assms(5,6)
proof (induction xs arbitrary: t)
  case Nil
  then show ?case by simp
next
  case (Cons xx xs)
  from Cons.prems(2) have "xx < w" by simp
  from diffuseCell_total [OF assms(1,2,3) Cons.prems(1) this assms(4)]
  obtain u where u: "diffuseCell f yy xx t = Some u" "rect u w h" by blast
  from Cons.prems(2) have "\<forall>xx\<in>set xs. xx < w" by simp
  from Cons.IH [OF u(2) this] u(1) show ?case by simp
qed

lemma grid_total:
  assumes "rect (m_isWall f) w h" "rect (read (m_brightness f)) w h" "ringWalls f w h"
    and "rect (t :: ColorF Grid2D) w h" "\<forall>yy\<in>set ys. yy < h"
  shows "\<exists>t'. forM (\<lambda>yy. forM (diffuseCell f yy) [0..<w]) ys t = Some t' \<and> rect t' w h"
  using assms(4,5)
proof (induction ys arbitrary: t)
  case Nil
  then show ?case by simp
next
  case (Cons yy ys)
  from Cons.prems(2) have "yy < h" by simp
  from row_total [OF assms(1,2,3) this Cons.prems(1), of "[0..<w]"]
  obtain u where u: "forM (diffuseCell f yy) [0..<w] t = Some u" "rect u w h" by auto
  from Cons.prems(2) have "\<forall>yy\<in>set ys. yy < h" by simp
  from Cons.IH [OF u(2) this] u(1) show ?case by simp
qed

lemma step_total:
  assumes "fieldDims f w h" "ringWalls f w h"
  shows "\<exists>f'. stepLightDiffusion f = Some f'"
proof (cases "0 < h")
  case True
  from assms(1) have rw: "rect (m_isWall f) w h"
    and rr: "rect (read (m_brightness f)) w h" and rwr: "rect (write' (m_brightness f)) w h"
    by (simp_all add: fieldDims_def)
  have hh: "height (read (m_brightness f)) = h" using rr by (rule rect_height)
  have ww: "width (read (m_brightness f)) = w" by (rule rect_width [OF rr True])
  from grid_total [OF rw rr assms(2) rwr, of "[0..<h]"]
  obtain wr where "forM (\<lambda>yy. forM (diffuseCell f yy) [0..<w]) [0..<h] (write' (m_brightness f)) = Some wr"
    by auto
  then show ?thesis unfolding stepLightDiffusion_def hh ww by simp
next
  case False
  from assms(1) have "rect (read (m_brightness f)) w h" by (simp add: fieldDims_def)
  then have "height (read (m_brightness f)) = h" by (rule rect_height)
  with False show ?thesis unfolding stepLightDiffusion_def by simp
qed

lemma isWall_step: "m_isWall f' = m_isWall f \<Longrightarrow> isWall f' p = isWall f p"
  by (simp add: isWall_def)

lemma Max_own_zero:
  fixes a :: real
  shows "max a (Max (set (0 # xs))) = Max (set (a # 0 # xs))"
  by simp

lemma Max_nonneg_own:
  fixes a :: real
  assumes "0 \<le> a"
  shows "Max (set (a # 0 # xs)) = Max (set (a # xs))"
proof (cases "xs = []")
  case True
  with assms show ?thesis by simp
next
  case False
  then have "set xs \<noteq> {}" by simp
  with assms show ?thesis by (simp add: max_def)
qed

lemma valid_coords:
  assumes "rect g w h" "isValid g p"
  obtains xx yy where "p = (int xx, int yy)" "xx < w" "yy < h"
proof -
  from assms have "0 \<le> fst p" "fst p < int w" "0 \<le> snd p" "snd p < int h"
    by (simp_all add: isValid_rect)
  then have "p = (int (nat (fst p)), int (nat (snd p)))" "nat (fst p) < w" "nat (snd p) < h"
    by simp_all
  then show ?thesis by (rule that)
qed

lemma step_cell:
  assumes "fieldDims f w h" "stepLightDiffusion f = Some f'" "isValid (read (m_brightness f)) p"
  shows "newCell f p (cell (write' (m_brightness f)) p) (cell (read (m_brightness f')) p)"
proof -
  from assms(1) have rr: "rect (read (m_brightness f)) w h" by (simp add: fieldDims_def)
  from valid_coords [OF rr assms(3)] obtain xx yy where
    p: "p = (int xx, int yy)" "xx < w" "yy < h" by blast
  from step_Some [OF assms(1,2)] have
    "\<forall>xx<w. \<forall>yy<h. newCell f (int xx, int yy) (write' (m_brightness f) ! yy ! xx)
                           (read (m_brightness f') ! yy ! xx)"
    by (elim conjE)
  with p(2,3) have "newCell f (int xx, int yy) (write' (m_brightness f) ! yy ! xx)
                           (read (m_brightness f') ! yy ! xx)" by blast
  then show ?thesis unfolding p(1) cell_def by simp
qed

lemma litField_read:
  "read (m_brightness litField) =
     [[\<lparr>chan_r = 1, chan_g = 1, chan_b = 1, chan_a = 1\<rparr>, Black, Black],
      [Black, \<lparr>chan_r = 1, chan_g = 1 / 2, chan_b = 0, chan_a = 1\<rparr>, Black],
      [Black, Black, Black]]"
  by (simp add: litField_def read_def readIndex_def)

lemma litField_write:
  "write' (m_brightness litField) = [[Black, Black, Black], [Black, Black, Black], [Black, Black, Black]]"
  by (simp add: litField_def write'_def writeIndex_def)

lemma litField_walls:
  "m_isWall litField = [[True, True, True], [True, False, True], [True, True, True]]"
  by (simp add: litField_def)

lemma less_3: "(n::nat) < 3 \<longleftrightarrow> n = 0 \<or> n = 1 \<or> n = 2"
  by arith

lemma litField_dims: "fieldDims litField 3 3"
  unfolding fieldDims_def litField_read litField_write litField_walls
  by (simp add: rect_def less_3 DoubleBuffer_ok_def litField_def)

lemma litField_ring: "ringWalls litField 3 3"
  unfolding ringWalls_def litField_walls
  by (auto simp: less_3 FieldWall_def)

lemma litField_neighborContributions: "neighborContributions litField ch (1, 1) = [0, 0, 0, 0]"
  unfolding neighborContributions_def offsets8_def
  by (cases ch)
     (simp_all add: contributes_def contribution_def cornerBlocked_def wallAt_def isWall_def
       cell_at_def isValid_def litField_read litField_walls padd_def diagonal_def cell_def
       Black_def FieldWall_def)

lemma openField_step: "fieldDims openField 1 1 \<and> isWall openField (-1, 0) = None
    \<and> stepLightDiffusion openField = None"
proof -
  have rd: "read (m_brightness openField) = [[Black]]"
    and wr: "write' (m_brightness openField) = [[Black]]"
    by (simp_all add: openField_def DoubleBuffer_init_def read_def write'_def readIndex_def
        writeIndex_def)
  have dims: "fieldDims openField 1 1"
    unfolding fieldDims_def rd wr
    by (simp add: rect_def openField_def DoubleBuffer_ok_init)
  have w0: "isWall openField (0, 0) = Some False"
    by (simp add: isWall_def cell_at_def isValid_def openField_def FieldWall_def FieldSpace_def)
  have w1: "isWall openField (-1, 0) = None"
    by (simp add: isWall_def cell_at_def isValid_def openField_def)
  have n0: "diffuseNeighbor openField 0 0 0 Black = None"
    unfolding diffuseNeighbor_def by (simp add: neighbors_diffusion_def w1)
  have "[0..<8] = 0 # [Suc 0..<8]" by (rule upt_conv_Cons) simp
  then have "forM (diffuseNeighbor openField 0 0) [0..<8] Black = None"
    using n0 by (simp only: forM.simps option.case)
  then have "diffuseCell openField 0 0 [[Black]] = None"
    unfolding diffuseCell_def using w0 by simp
  then have "stepLightDiffusion openField = None"
    unfolding stepLightDiffusion_def rd wr by (simp add: width_def height_def)
  with dims w1 show ?thesis by simp
qed

lemma max_list_zero:
  fixes a :: real
  shows "max a (Max (set (0 # xs))) = Max (set (a # 0 # xs))"
  by simp

lemma reset_center: "resetBrightness centerLightField =
   centerLightField\<lparr>m_brightness :=
      \<lparr>m_buffer = [Grid2D_fill 3 3 Black, Grid2D_fill 3 3 Black], m_currentWriteBuffer = 1\<rparr>\<rparr>"
  by (simp add: resetBrightness_def centerLightField_def DoubleBuffer_init_def write'_def
      write_assign_def writeIndex_def flip_def reset_def Grid2D_fill_def Let_def)

lemma fill33: "Grid2D_fill 3 3 v = [[v, v, v], [v, v, v], [v, v, v]]"
  by (simp add: Grid2D_fill_def numeral_3_eq_3)

lemma edit_center: "editWalls paintInput (resetBrightness centerLightField) =
   Some (centerLightField\<lparr>m_isWall := [[True, True, True], [True, True, True], [True, True, True]],
      m_brightness :=
      \<lparr>m_buffer = [Grid2D_fill 3 3 Black, Grid2D_fill 3 3 Black], m_currentWriteBuffer = 1\<rparr>\<rparr>)"
  unfolding reset_center
  by (simp add: editWalls_def mouseGridPos_def gridUnitPixel_def centerLightField_def
      paintInput_def height_def isValid_def cell_put_def FieldWall_def
      signed_divide_int_def)

lemma edit_center': "editWalls paintInput (resetBrightness centerLightField) = Some editedField"
  unfolding edit_center by (simp add: centerLightField_def editedField_def)

lemma editedField_sel:
  "m_velocity editedField = [(0, 0)]"
  "m_lightPos editedField = [\<lparr>center = (48, 48), radius = 16\<rparr>]"
  "m_lightColor editedField = [\<lparr>chan_r = 1, chan_g = 1, chan_b = 1, chan_a = 1\<rparr>]"
  "read (m_brightness editedField) = Grid2D_fill 3 3 Black"
  "write' (m_brightness editedField) = Grid2D_fill 3 3 Black"
  "m_isWall editedField = [[True, True, True], [True, True, True], [True, True, True]]"
  by (simp_all add: editedField_def read_def readIndex_def write'_def writeIndex_def)

lemma seed_center: "seedFrame isect paintInput centerLightField = Some paintedField"
proof -
  have u: "gridUnitPixel editedField = Some 32"
    by (simp add: gridUnitPixel_def editedField_def height_def)
  have force: "applyForce paintInput 0 (48, 48) (0, 0) = (0, 0)"
    by (simp add: applyForce_def paintInput_def vscale_def vsub_def lengthSq_def Let_def)
  have move: "vadd (48, 48) (vscale (0, 0) dt) = (48, 48)"
    by (simp add: vadd_def vscale_def)
  have gp: "gridPos editedField (asPoint (48, 48)) = Some (1, 1)"
    unfolding gridPos_def u by (simp add: asPoint_def truncate_def)
  have coll: "collision isect editedField (48, 48) (0, 0) = Some (0, 0)"
    unfolding collision_def Let_def move gp by simp
  have v: "isValid (Grid2D_fill 3 3 Black) (1, 1)"
    by (simp add: fill33 isValid_def)
  have put: "cell_put (Grid2D_fill 3 3 Black) (1, 1) \<lparr>chan_r = 1, chan_g = 1, chan_b = 1, chan_a = 1\<rparr>
     = Some [[Black, Black, Black],
             [Black, \<lparr>chan_r = 1, chan_g = 1, chan_b = 1, chan_a = 1\<rparr>, Black],
             [Black, Black, Black]]"
    by (simp add: fill33 cell_put_def isValid_def)
  have light: "updateLight isect paintInput 0 editedField =
      Some (editedField\<lparr>m_velocity := [(0, 0)],
          m_lightPos := [\<lparr>center = (48, 48), radius = 16\<rparr>],
          m_brightness := write_assign [[Black, Black, Black],
             [Black, \<lparr>chan_r = 1, chan_g = 1, chan_b = 1, chan_a = 1\<rparr>, Black],
             [Black, Black, Black]] (m_brightness editedField)\<rparr>)"
    unfolding updateLight_def editedField_sel
    by (simp add: nth_opt_def force coll move gp v put)
  have "seedFrame isect paintInput centerLightField =
     Some (editedField\<lparr>m_velocity := [(0, 0)],
          m_lightPos := [\<lparr>center = (48, 48), radius = 16\<rparr>],
          m_brightness := flip (write_assign [[Black, Black, Black],
             [Black, \<lparr>chan_r = 1, chan_g = 1, chan_b = 1, chan_a = 1\<rparr>, Black],
             [Black, Black, Black]] (m_brightness editedField))\<rparr>)"
    unfolding seedFrame_def edit_center'
    by (simp add: editedField_sel light)
  also have "\<dots> = Some paintedField"
    by (simp add: editedField_def paintedField_def flip_def write_assign_def writeIndex_def fill33)
  finally show ?thesis .
qed

lemma upt_0_3: "[0..<3] = [0, 1, 2]"
  by (simp add: numeral_3_eq_3)

lemma paintedField_sel:
  "read (m_brightness paintedField) = [[Black, Black, Black],
             [Black, \<lparr>chan_r = 1, chan_g = 1, chan_b = 1, chan_a = 1\<rparr>, Black],
             [Black, Black, Black]]"
  "write' (m_brightness paintedField) = [[Black, Black, Black], [Black, Black, Black], [Black, Black, Black]]"
  "m_isWall paintedField = [[True, True, True], [True, True, True], [True, True, True]]"
  by (simp_all add: paintedField_def read_def readIndex_def write'_def writeIndex_def)

lemma painted_wall:
  "xx < 3 \<Longrightarrow> yy < 3 \<Longrightarrow> isWall paintedField (int xx, int yy) = Some True"
  by (auto simp: isWall_def cell_at_def isValid_def paintedField_sel less_3 FieldWall_def)

lemma painted_cell:
  "xx < 3 \<Longrightarrow> yy < 3 \<Longrightarrow> diffuseCell paintedField yy xx wr = cell_put wr (int xx, int yy) Black"
  by (simp add: diffuseCell_def painted_wall)

lemma painted_step: "stepLightDiffusion paintedField = Some darkField"
proof -
  have "forM (\<lambda>yy. forM (diffuseCell paintedField yy) [0..<3]) [0..<3]
      [[Black, Black, Black], [Black, Black, Black], [Black, Black, Black]]
     = Some [[Black, Black, Black], [Black, Black, Black], [Black, Black, Black]]"
    unfolding upt_0_3
    by (simp add: painted_cell [of 0 0, simplified] painted_cell [of 1 0, simplified]
        painted_cell [of 2 0, simplified] painted_cell [of 0 1, simplified]
        painted_cell [of 1 1, simplified] painted_cell [of 2 1, simplified]
        painted_cell [of 0 2, simplified] painted_cell [of 1 2, simplified]
        painted_cell [of 2 2, simplified] cell_put_def isValid_def)
  note loop = this
  have wd: "width [[Black, Black, Black],
             [Black, \<lparr>chan_r = 1, chan_g = 1, chan_b = 1, chan_a = 1\<rparr>, Black],
             [Black, Black, Black]] = 3"
    and ht: "height [[Black, Black, Black],
             [Black, \<lparr>chan_r = 1, chan_g = 1, chan_b = 1, chan_a = 1\<rparr>, Black],
             [Black, Black, Black]] = 3"
    by (simp_all add: width_def height_def)
  have "stepLightDiffusion paintedField =
      Some (paintedField\<lparr>m_brightness := flip (write_assign
         [[Black, Black, Black], [Black, Black, Black], [Black, Black, Black]]
         (m_brightness paintedField))\<rparr>)"
    unfolding stepLightDiffusion_def paintedField_sel wd ht loop
    by (simp only: Option.bind.simps)
  also have "\<dots> = Some darkField"
    by (simp add: paintedField_def darkField_def write_assign_def writeIndex_def flip_def)
  finally show ?thesis .
qed

lemma ringWalls_cong: "m_isWall f' = m_isWall f \<Longrightarrow> ringWalls f' w h = ringWalls f w h"
  by (simp add: ringWalls_def)

lemma diffusion_Some:
  assumes "fieldDims f w h" and "diffusion n f = Some f'"
  shows "fieldDims f' w h \<and> m_isWall f' = m_isWall f"
  using assms
proof (induction n arbitrary: f)
  case 0
  then show ?case by simp
next
  case (Suc n)
  from Suc.prems(2) obtain g where g: "stepLightDiffusion f = Some g" and r: "diffusion n g = Some f'"
    by (auto split: option.splits)
  from step_Some [OF Suc.prems(1) g] have fg: "fieldDims g w h" by (rule conjunct1)
  from step_Some [OF Suc.prems(1) g] have wg: "m_isWall g = m_isWall f" by (elim conjE)
  from Suc.IH [OF fg r] wg show ?case by simp
qed

lemma diffusion_total:
  assumes "fieldDims f w h" and "ringWalls f w h"
  shows "\<exists>f'. diffusion n f = Some f'"
  using assms
proof (induction n arbitrary: f)
  case 0
  then show ?case by simp
next
  case (Suc n)
  from step_total [OF Suc.prems] obtain g where g: "stepLightDiffusion f = Some g" by blast
  from step_Some [OF Suc.prems(1) g] have fg: "fieldDims g w h" by (rule conjunct1)
  from step_Some [OF Suc.prems(1) g] have wg: "m_isWall g = m_isWall f" by (elim conjE)
  from Suc.prems(2) have "ringWalls g w h" unfolding ringWalls_cong [OF wg] .
  from Suc.IH [OF fg this] g show ?case by simp
qed

lemma diffusion_snoc:
  "diffusion (Suc n) f = (case diffusion n f of None \<Rightarrow> None | Some g \<Rightarrow> stepLightDiffusion g)"
proof (induction n arbitrary: f)
  case 0
  then show ?case by (simp split: option.splits)
next
  case (Suc n)
  show ?case
  proof (cases "stepLightDiffusion f")
    case None
    then show ?thesis by simp
  next
    case (Some g)
    have "diffusion (Suc (Suc n)) f = diffusion (Suc n) g" using Some by simp
    also have "\<dots> = (case diffusion n g of None \<Rightarrow> None | Some x \<Rightarrow> stepLightDiffusion x)"
      by (rule Suc.IH)
    also have "\<dots> = (case diffusion (Suc n) f of None \<Rightarrow> None | Some x \<Rightarrow> stepLightDiffusion x)"
      using Some by simp
    finally show ?thesis .
  qed
qed

lemma valid_after:
  assumes "fieldDims f w h" and "fieldDims f' w h"
  shows "isValid (read (m_brightness f')) p = isValid (read (m_brightness f)) p"
proof -
  from assms have "rect (read (m_brightness f)) w h" "rect (read (m_brightness f')) w h"
    by (simp_all add: fieldDims_def)
  then show ?thesis by (simp add: isValid_rect)
qed

lemma step_mono:
  assumes "fieldDims f w h" and "stepLightDiffusion f = Some f'"
    and "isValid (read (m_brightness f)) p" and "isWall f p = Some False"
  shows "chan ch (cell (read (m_brightness f)) p) \<le> chan ch (cell (read (m_brightness f')) p)"
proof -
  from assms(4) have "\<not> wallAt f p" by (simp add: wallAt_def)
  with step_cell [OF assms(1,2,3)]
  have "chan ch (cell (read (m_brightness f')) p)
      = max (chan ch (cell (read (m_brightness f)) p)) (Max (set (0 # neighborContributions f ch p)))"
    by (simp add: newCell_def)
  then show ?thesis by simp
qed

lemma step_wall:
  assumes "fieldDims f w h" and "stepLightDiffusion f = Some f'"
    and "isValid (read (m_brightness f)) p" and "isWall f p = Some True"
  shows "cell (read (m_brightness f')) p = Black"
proof -
  from assms(4) have "wallAt f p" by (simp add: wallAt_def)
  with step_cell [OF assms(1,2,3)] show ?thesis by (simp add: newCell_def)
qed

lemma diffusion_mono:
  assumes "fieldDims f w h" and "diffusion n f = Some f'"
    and "isValid (read (m_brightness f)) p" and "isWall f p = Some False"
  shows "chan ch (cell (read (m_brightness f)) p) \<le> chan ch (cell (read (m_brightness f')) p)"
  using assms
proof (induction n arbitrary: f)
  case 0
  then show ?case by simp
next
  case (Suc n)
  from Suc.prems(2) obtain g where g: "stepLightDiffusion f = Some g" and r: "diffusion n g = Some f'"
    by (auto split: option.splits)
  from step_Some [OF Suc.prems(1) g] have fg: "fieldDims g w h" by (rule conjunct1)
  from step_Some [OF Suc.prems(1) g] have wg: "m_isWall g = m_isWall f" by (elim conjE)
  have vg: "isValid (read (m_brightness g)) p"
    unfolding valid_after [OF Suc.prems(1) fg] by (rule Suc.prems(3))
  have og: "isWall g p = Some False"
    unfolding isWall_step [OF wg] by (rule Suc.prems(4))
  from step_mono [OF Suc.prems(1) g Suc.prems(3,4), of ch] Suc.IH [OF fg r vg og]
  show ?case by simp
qed

lemma diffusion_wall:
  assumes "fieldDims f w h" and "diffusion n f = Some f'" and "0 < n"
    and "isValid (read (m_brightness f)) p" and "isWall f p = Some True"
  shows "cell (read (m_brightness f')) p = Black"
proof -
  from assms(3) obtain m where n: "n = Suc m" by (cases n) simp_all
  from assms(2) obtain g where g: "diffusion m f = Some g" and s: "stepLightDiffusion g = Some f'"
    unfolding n diffusion_snoc by (auto split: option.splits)
  from diffusion_Some [OF assms(1) g] have fg: "fieldDims g w h" and wg: "m_isWall g = m_isWall f"
    by simp_all
  have vg: "isValid (read (m_brightness g)) p"
    unfolding valid_after [OF assms(1) fg] by (rule assms(4))
  have og: "isWall g p = Some True"
    unfolding isWall_step [OF wg] by (rule assms(5))
  from step_wall [OF fg s vg og] show ?thesis .
qed

lemma neighborHit_eq:
  assumes "gridUnitPixel f = Some u"
  shows "neighborHit intersects f seg gridA j = Some (hitAt intersects f u seg gridA j)"
  unfolding neighborHit_def hitAt_def Let_def gridRect_def assms
  by (auto simp: isWall_def cell_at_def cell_def)

lemma reflect_table:
  assumes "j < 8"
  shows "(fst v * fst (reflectDirection ! j), snd v * snd (reflectDirection ! j))
      = reflectBy (neighbors_update ! j) v"
proof -
  from assms have "j = 0 \<or> j = 1 \<or> j = 2 \<or> j = 3 \<or> j = 4 \<or> j = 5 \<or> j = 6 \<or> j = 7" by arith
  then show ?thesis
    by (elim disjE) (simp_all add: reflectDirection_def neighbors_update_def reflectBy_def)
qed

lemma collide_step:
  assumes "gridUnitPixel f = Some u" and "j < 8"
  shows "collide intersects f seg gridA (j # js) (v, r) =
     (if r \<and> 4 \<le> j then Some (v, r)
      else if hitAt intersects f u seg gridA j
           then collide intersects f seg gridA js (reflectBy (neighbors_update ! j) v, True)
           else collide intersects f seg gridA js (v, r))"
  by (simp add: neighborHit_eq [OF assms(1)] reflect_table [OF assms(2)] Let_def)

lemma collide_cardinal:
  assumes "gridUnitPixel f = Some u" and "\<forall>j\<in>set js. j < 4"
  shows "collide intersects f seg gridA (js @ rest) (v, r) =
     collide intersects f seg gridA rest
       (fold (\<lambda>j. reflectBy (neighbors_update ! j)) (filter (hitAt intersects f u seg gridA) js) v,
        r \<or> filter (hitAt intersects f u seg gridA) js \<noteq> [])"
  using assms(2)
proof (induction js arbitrary: v r)
  case Nil
  then show ?case by simp
next
  case (Cons j js)
  then have j: "j < 4" "j < 8" and js: "\<forall>j\<in>set js. j < 4" by simp_all
  show ?case
    using j(1) Cons.IH [OF js]
    by (simp add: collide_step [OF assms(1) j(2)] del: collide.simps)
qed

lemma collide_diagonal_done:
  assumes "gridUnitPixel f = Some u" and "\<forall>j\<in>set js. 4 \<le> j \<and> j < 8"
  shows "collide intersects f seg gridA js (v, True) = Some (v, True)"
proof (cases js)
  case Nil
  then show ?thesis by simp
next
  case (Cons j js')
  with assms(2) have "4 \<le> j" "j < 8" by simp_all
  then show ?thesis unfolding Cons collide_step [OF assms(1) \<open>j < 8\<close>] by simp
qed

lemma collide_diagonal:
  assumes "gridUnitPixel f = Some u" and "\<forall>j\<in>set js. 4 \<le> j \<and> j < 8"
  shows "collide intersects f seg gridA js (v, False) =
     Some (fold (\<lambda>j. reflectBy (neighbors_update ! j))
             (take 1 (filter (hitAt intersects f u seg gridA) js)) v,
           filter (hitAt intersects f u seg gridA) js \<noteq> [])"
  using assms(2)
proof (induction js)
  case Nil
  then show ?case by simp
next
  case (Cons j js)
  then have j: "4 \<le> j" "j < 8" and js: "\<forall>j\<in>set js. 4 \<le> j \<and> j < 8" by simp_all
  show ?case
  proof (cases "hitAt intersects f u seg gridA j")
    case True
    then show ?thesis
      unfolding collide_step [OF assms(1) j(2)]
      by (simp add: collide_diagonal_done [OF assms(1) js] del: collide.simps)
  next
    case False
    then show ?thesis
      unfolding collide_step [OF assms(1) j(2)]
      using Cons.IH [OF js] by (simp del: collide.simps)
  qed
qed

lemma take1_nonempty: "(take 1 xs \<noteq> []) = (xs \<noteq> [])"
  by (cases xs) simp_all

lemma upt_0_8_split: "[0..<8] = [0..<4] @ [4..<8]"
  using upt_add_eq_append [of 0 4 4] by simp

lemma upt_4_8: "[4..<8] = [4, 5, 6, 7]"
  by (simp add: upt_rec)

lemma collide_all:
  assumes "gridUnitPixel f = Some u"
  shows "collide intersects f seg gridA [0..<8] (v, False) =
     Some (fold (\<lambda>j. reflectBy (neighbors_update ! j))
             (appliedReflections (hitAt intersects f u seg gridA)) v,
           appliedReflections (hitAt intersects f u seg gridA) \<noteq> [])"
proof -
  let ?h = "hitAt intersects f u seg gridA"
  have c: "\<forall>j\<in>set [0..<4]. j < 4" by simp
  have d: "\<forall>j\<in>set [4..<8]. 4 \<le> j \<and> j < 8" by simp
  show ?thesis
  proof (cases "filter ?h [0..<4] = []")
    case True
    have "collide intersects f seg gridA [0..<8] (v, False)
        = collide intersects f seg gridA [4..<8] (v, False)"
      unfolding upt_0_8_split collide_cardinal [OF assms c] True
      by (simp only: fold.simps id_apply simp_thms)
    also have "\<dots> = Some (fold (\<lambda>j. reflectBy (neighbors_update ! j)) (take 1 (filter ?h [4..<8])) v,
           filter ?h [4..<8] \<noteq> [])"
      by (rule collide_diagonal [OF assms d])
    also have "take 1 (filter ?h [4..<8]) = appliedReflections ?h"
      unfolding appliedReflections_def Let_def True by (simp only: simp_thms if_False)
    also have "(filter ?h [4..<8] \<noteq> []) = (appliedReflections ?h \<noteq> [])"
      unfolding appliedReflections_def Let_def True
      by (simp only: simp_thms if_False take1_nonempty)
    finally show ?thesis .
  next
    case False
    have "collide intersects f seg gridA [0..<8] (v, False)
        = collide intersects f seg gridA [4..<8]
            (fold (\<lambda>j. reflectBy (neighbors_update ! j)) (filter ?h [0..<4]) v, True)"
      unfolding upt_0_8_split collide_cardinal [OF assms c] using False
      by (simp only: simp_thms)
    also have "\<dots> = Some (fold (\<lambda>j. reflectBy (neighbors_update ! j)) (filter ?h [0..<4]) v, True)"
      by (rule collide_diagonal_done [OF assms d])
    also have "filter ?h [0..<4] = appliedReflections ?h"
      unfolding appliedReflections_def Let_def using False by (simp only: simp_thms if_True)
    also have "True = (appliedReflections ?h \<noteq> [])"
      unfolding appliedReflections_def Let_def using False by (simp only: simp_thms if_True)
    finally show ?thesis .
  qed
qed

lemma corner_unit: "gridUnitPixel cornerField = Some 32"
  by (simp add: gridUnitPixel_def cornerField_def height_def)

lemma corner_walls:
  "m_isWall cornerField = [[True, True, True, True, True],
                  [True, True, False, True, True],
                  [True, False, False, False, True],
                  [True, False, False, False, True],
                  [True, True, True, True, True]]"
  by (simp add: cornerField_def)

lemma corner_hits:
  "\<not> hitAt endpointInside cornerField 32 ((65, 65), (95, 63)) (2, 2) 0"
  "\<not> hitAt endpointInside cornerField 32 ((65, 65), (95, 63)) (2, 2) 1"
  "\<not> hitAt endpointInside cornerField 32 ((65, 65), (95, 63)) (2, 2) 2"
  "\<not> hitAt endpointInside cornerField 32 ((65, 65), (95, 63)) (2, 2) 3"
  "hitAt endpointInside cornerField 32 ((65, 65), (95, 63)) (2, 2) 4"
  "hitAt endpointInside cornerField 32 ((65, 65), (95, 63)) (2, 2) 5"
  "\<not> hitAt endpointInside cornerField 32 ((65, 65), (95, 63)) (2, 2) 6"
  "\<not> hitAt endpointInside cornerField 32 ((65, 65), (95, 63)) (2, 2) 7"
  by (simp_all add: hitAt_def neighbors_update_def padd_def isValid_def cell_def corner_walls
      FieldWall_def endpointInside_def stretched_def toRectF_def)

lemma upt_0_4: "[0..<4] = [0, 1, 2, 3]"
  by (simp add: upt_rec)

lemma corner_applied:
  "appliedReflections (hitAt endpointInside cornerField 32 ((65, 65), (95, 63)) (2, 2)) = [4]"
  unfolding appliedReflections_def Let_def upt_0_4 upt_4_8 by (simp add: corner_hits corner_hits(2) [unfolded One_nat_def])

lemma corner_claimed:
  "claimedReflections (hitAt endpointInside cornerField 32 ((65, 65), (95, 63)) (2, 2)) = [4, 5]"
  unfolding claimedReflections_def Let_def upt_0_4 upt_4_8 by (simp add: corner_hits corner_hits(2) [unfolded One_nat_def])

lemma corner_collide:
  "collide endpointInside cornerField ((65, 65), (95, 63)) (2, 2) [0..<8] ((1800, -120), False)
     = Some ((-900, 60), True)"
  unfolding collide_all [OF corner_unit] corner_applied
  by (simp add: reflectBy_def neighbors_update_def restitution_def)

lemma corner_collision:
  "collision endpointInside cornerField (65, 65) (1800, -120) = Some (-900, 60)"
proof -
  have move: "vadd (65, 65) (vscale (1800, -120) dt) = (95, 63)"
    by (simp add: vadd_def vscale_def dt_def)
  have a: "gridPos cornerField (asPoint (65, 65)) = Some (2, 2)"
    unfolding gridPos_def corner_unit by (simp add: asPoint_def truncate_def)
  have b: "gridPos cornerField (asPoint (95, 63)) = Some (2, 1)"
    unfolding gridPos_def corner_unit by (simp add: asPoint_def truncate_def)
  have v: "isValid (m_isWall cornerField) (2, 2)" "isValid (m_isWall cornerField) (2, 1)"
    unfolding corner_walls by (simp_all add: isValid_def)
  have w: "isWall cornerField (2, 2) = Some False"
    by (simp add: isWall_def cell_at_def isValid_def corner_walls FieldWall_def)
  show ?thesis
    unfolding collision_def Let_def move a b
    by (simp add: v w corner_collide)
qed

lemma collision_unfold:
  assumes "gridPos f (asPoint c) = Some gridA"
    and "gridPos f (asPoint (vadd c (vscale v dt))) = Some gridB"
  shows "collision intersects f c v =
     (if isValid (m_isWall f) gridA \<and> isValid (m_isWall f) gridB \<and> gridA \<noteq> gridB
      then (case isWall f gridA of None \<Rightarrow> None
            | Some w \<Rightarrow> if \<not> w
                then map_option fst (collide intersects f (c, vadd c (vscale v dt)) gridA [0..<8] (v, False))
                else Some v)
      else Some v)"
  unfolding collision_def Let_def assms
  by (simp split: option.splits)

lemma updateLight_velocity:
  assumes "nth_opt (m_velocity f) i = Some v0" and "nth_opt (m_lightPos f) i = Some light"
    and "collision intersects f (center light) (applyForce inp i (center light) v0) = Some v2"
    and "updateLight intersects inp i f = Some f'"
  shows "m_velocity f' ! i = v2
     \<and> center (m_lightPos f' ! i) = vadd (center light) (vscale v2 dt)"
proof -
  from assms(1,2) have i: "i < length (m_velocity f)" "i < length (m_lightPos f)"
    by (simp_all add: nth_opt_def split: if_splits)
  from assms(4) assms(1,2,3) obtain b where
    "f' = f\<lparr>m_velocity := (m_velocity f)[i := v2],
              m_lightPos := (m_lightPos f)[i := light\<lparr>center := vadd (center light) (vscale v2 dt)\<rparr>],
              m_brightness := b\<rparr>"
    by (auto simp: updateLight_def Let_def split: Option.bind_splits)
  with i show ?thesis by simp
qed

lemma edited_force: "applyForce paintInput 0 (48, 48) (0, 0) = (0, 0)"
  by (simp add: applyForce_def paintInput_def vscale_def vsub_def lengthSq_def Let_def)

lemma edited_gridPos: "gridPos editedField (asPoint (48, 48)) = Some (1, 1)"
proof -
  have "gridUnitPixel editedField = Some 32"
    by (simp add: gridUnitPixel_def editedField_def height_def)
  then show ?thesis
    unfolding gridPos_def by (simp add: asPoint_def truncate_def)
qed

lemma edited_move: "vadd (48, 48) (vscale (0, 0) dt) = (48, 48)"
  by (simp add: vadd_def vscale_def)

lemma edited_light: "\<exists>f'. updateLight intersects paintInput 0 editedField = Some f'"
proof -
  have coll: "collision intersects editedField (48, 48) (0, 0) = Some (0, 0)"
    unfolding collision_def Let_def edited_move edited_gridPos by simp
  have v: "isValid (Grid2D_fill 3 3 Black) (1, 1)"
    by (simp add: fill33 isValid_def)
  have put: "\<exists>g. cell_put (Grid2D_fill 3 3 Black) (1, 1) \<lparr>chan_r = 1, chan_g = 1, chan_b = 1, chan_a = 1\<rparr>
     = Some g"
    using v by (simp add: cell_put_def)
  then obtain g where "cell_put (Grid2D_fill 3 3 Black) (1, 1) \<lparr>chan_r = 1, chan_g = 1, chan_b = 1, chan_a = 1\<rparr>
     = Some g" by blast
  then show ?thesis
    unfolding updateLight_def editedField_sel
    by (simp add: nth_opt_def edited_force coll edited_move edited_gridPos v)
qed

lemma rect_valid: "rect g w h \<Longrightarrow> xx < w \<Longrightarrow> yy < h \<Longrightarrow> isValid g (int xx, int yy)"
  by (simp add: isValid_rect)

lemma initCell_eq:
  assumes "isValid g (int xx, int yy)"
  shows "initCell w h yy xx g = Some (g[yy := (g ! yy)[xx := onRing w h xx yy]])"
proof -
  from assms have v: "yy < length g" "xx < length (g ! yy)" by (simp_all add: isValid_def)
  have p1: "cell_put g (int xx, int yy) FieldSpace = Some (g[yy := (g ! yy)[xx := False]])"
    using assms by (simp add: cell_put_def FieldSpace_def)
  have v1: "isValid (g[yy := (g ! yy)[xx := False]]) (int xx, int yy)"
    using v by (simp add: isValid_def)
  have p2: "cell_put (g[yy := (g ! yy)[xx := False]]) (int xx, int yy) FieldWall
      = Some (g[yy := (g ! yy)[xx := True]])"
    using v v1 by (simp add: cell_put_def FieldWall_def)
  show ?thesis
    unfolding initCell_def p1 using p2 by (simp add: onRing_def)
qed

lemma initRow:
  assumes "rect g w h" and "yy < h" and "\<forall>xx\<in>set xs. xx < w" and "distinct xs"
  shows "\<exists>g'. forM (initCell w0 h0 yy) xs g = Some g' \<and> rect g' w h
     \<and> (\<forall>x y. g' ! y ! x = (if y = yy \<and> x \<in> set xs then onRing w0 h0 x yy else g ! y ! x))"
  using assms(1,3,4)
proof (induction xs arbitrary: g)
  case Nil
  then show ?case by simp
next
  case (Cons xx xs)
  from Cons.prems have xx: "xx < w" "xx \<notin> set xs" and xs: "\<forall>xx\<in>set xs. xx < w" "distinct xs"
    by simp_all
  let ?g1 = "g[yy := (g ! yy)[xx := onRing w0 h0 xx yy]]"
  have v: "isValid g (int xx, int yy)" using Cons.prems(1) xx(1) assms(2) by (rule rect_valid)
  then have len: "yy < length g" "xx < length (g ! yy)" by (simp_all add: isValid_def)
  have s: "initCell w0 h0 yy xx g = Some ?g1" using v by (rule initCell_eq)
  have r1: "rect ?g1 w h" using Cons.prems(1) by (simp add: rect_shape [OF shape_update])
  from Cons.IH [OF r1 xs] obtain g' where
    g': "forM (initCell w0 h0 yy) xs ?g1 = Some g'" "rect g' w h"
      "\<forall>x y. g' ! y ! x = (if y = yy \<and> x \<in> set xs then onRing w0 h0 x yy else ?g1 ! y ! x)"
    by blast
  have "\<forall>x y. g' ! y ! x = (if y = yy \<and> x \<in> set (xx # xs) then onRing w0 h0 x yy else g ! y ! x)"
  proof (intro allI)
    fix x y
    show "g' ! y ! x = (if y = yy \<and> x \<in> set (xx # xs) then onRing w0 h0 x yy else g ! y ! x)"
      using g'(3) [rule_format, of y x] len xx(2)
      by (cases "y = yy"; cases "x = xx") (auto simp: nth_list_update)
  qed
  with g'(1,2) s show ?case by simp
qed

lemma initRows:
  assumes "rect g w h" and "\<forall>yy\<in>set ys. yy < h" and "distinct ys"
  shows "\<exists>g'. forM (\<lambda>yy. forM (initCell w0 h0 yy) [0..<w]) ys g = Some g' \<and> rect g' w h
     \<and> (\<forall>x y. g' ! y ! x = (if y \<in> set ys \<and> x < w then onRing w0 h0 x y else g ! y ! x))"
  using assms
proof (induction ys arbitrary: g)
  case Nil
  then show ?case by simp
next
  case (Cons yy ys)
  from Cons.prems have yy: "yy < h" "yy \<notin> set ys" and ys: "\<forall>yy\<in>set ys. yy < h" "distinct ys"
    by simp_all
  from initRow [OF Cons.prems(1) yy(1), of "[0..<w]" w0 h0] obtain g1 where
    g1: "forM (initCell w0 h0 yy) [0..<w] g = Some g1" "rect g1 w h"
      "\<forall>x y. g1 ! y ! x = (if y = yy \<and> x \<in> set [0..<w] then onRing w0 h0 x yy else g ! y ! x)"
    by auto
  from Cons.IH [OF g1(2) ys] obtain g' where
    g': "forM (\<lambda>yy. forM (initCell w0 h0 yy) [0..<w]) ys g1 = Some g'" "rect g' w h"
      "\<forall>x y. g' ! y ! x = (if y \<in> set ys \<and> x < w then onRing w0 h0 x y else g1 ! y ! x)"
    by blast
  have "\<forall>x y. g' ! y ! x = (if y \<in> set (yy # ys) \<and> x < w then onRing w0 h0 x y else g ! y ! x)"
  proof (intro allI)
    fix x y
    show "g' ! y ! x = (if y \<in> set (yy # ys) \<and> x < w then onRing w0 h0 x y else g ! y ! x)"
      using g'(3) [rule_format, of y x] g1(3) [rule_format, of y x] yy(2)
      by auto
  qed
  with g'(1,2) g1(1) show ?case by simp
qed

lemma rect_fill: "rect (Grid2D_fill w h v) w h"
  by (simp add: rect_def Grid2D_fill_def)

lemma initWalls_rect:
  assumes "rect g w h" and "0 < h"
  shows "\<exists>g'. initWalls g = Some g' \<and> rect g' w h
     \<and> (\<forall>xx<w. \<forall>yy<h. g' ! yy ! xx = onRing w h xx yy)"
proof -
  have wd: "width g = w" using assms by (rule rect_width)
  have ht: "height g = h" using assms(1) by (rule rect_height)
  from initRows [OF assms(1), of "[0..<h]" w h] obtain g' where
    "forM (\<lambda>yy. forM (initCell w h yy) [0..<w]) [0..<h] g = Some g'" "rect g' w h"
      "\<forall>x y. g' ! y ! x = (if y \<in> set [0..<h] \<and> x < w then onRing w h x y else g ! y ! x)"
    by auto
  then show ?thesis unfolding initWalls_def wd ht by auto
qed

lemma initWalls_empty:
  assumes "rect g w 0"
  shows "initWalls g = Some g"
proof -
  from assms have "g = []" by (simp add: rect_def)
  then show ?thesis by (simp add: initWalls_def height_def)
qed

lemma Field_new_unfold:
  "0 < unitPixel \<Longrightarrow> Field_new randomPos hsv img unitPixel =
     (case checkInitialValidness (initialField img unitPixel) unitPixel of
        Inl e \<Rightarrow> Inl e
      | Inr u \<Rightarrow> (case init randomPos hsv (initialField img unitPixel) of
                    None \<Rightarrow> Inl Undefined | Some f' \<Rightarrow> Inr f'))"
  unfolding Field_new_def initialField_def Let_def by simp

lemma check_fail:
  assumes "\<not> (unitPixel dvd image_width img \<and> unitPixel dvd image_height img)"
  shows "checkInitialValidness (initialField img unitPixel) unitPixel =
     Inl (AssertionFailed
       ''Field Class Initialization Failed : Field Resolution Cannot Be Divided By Cell Unit Size.'')"
  using assms by (auto simp: checkInitialValidness_def initialField_def Let_def dvd_eq_mod_eq_0)

lemma check_ok:
  assumes "unitPixel dvd image_width img" and "unitPixel dvd image_height img"
  shows "checkInitialValidness (initialField img unitPixel) unitPixel = Inr ()"
  using assms by (auto simp: checkInitialValidness_def initialField_def Let_def dvd_eq_mod_eq_0)

lemma init_ok:
  assumes "0 < image_height img div unitPixel"
  shows "\<exists>f. init randomPos hsv (initialField img unitPixel) = Some f
     \<and> m_field f = img
     \<and> m_brightness f = DoubleBuffer_init
         (Grid2D_fill (image_width img div unitPixel) (image_height img div unitPixel) Black)
     \<and> rect (m_isWall f) (image_width img div unitPixel) (image_height img div unitPixel)
     \<and> (\<forall>xx<image_width img div unitPixel. \<forall>yy<image_height img div unitPixel.
           m_isWall f ! yy ! xx
             = onRing (image_width img div unitPixel) (image_height img div unitPixel) xx yy)"
proof -
  let ?w = "image_width img div unitPixel"
  let ?h = "image_height img div unitPixel"
  from initWalls_rect [OF rect_fill assms, of ?w FieldSpace] obtain g where
    g: "initWalls (Grid2D_fill ?w ?h FieldSpace) = Some g" "rect g ?w ?h"
       "\<forall>xx<?w. \<forall>yy<?h. g ! yy ! xx = onRing ?w ?h xx yy"
    by blast
  have w: "m_isWall (initialField img unitPixel) = Grid2D_fill ?w ?h FieldSpace"
    by (simp add: initialField_def)
  from g(2) assms have ht: "height g \<noteq> 0" by (simp add: rect_height)
  show ?thesis
    unfolding init_def w g(1)
    using g(2,3) ht by (simp add: gridUnitPixel_def initialField_def)
qed

lemma init_empty:
  assumes "image_height img div unitPixel = 0"
  shows "init randomPos hsv (initialField img unitPixel) = None"
proof -
  have w: "m_isWall (initialField img unitPixel) = []"
    using assms by (simp add: initialField_def Grid2D_fill_def)
  show ?thesis
    unfolding init_def w by (simp add: initWalls_def height_def gridUnitPixel_def)
qed

lemma construction_ring:
  assumes "Field_new randomPos hsv img unitPixel = Inr f"
  shows "rect (m_isWall f) (image_width img div unitPixel) (image_height img div unitPixel)
     \<and> (\<forall>xx<image_width img div unitPixel. \<forall>yy<image_height img div unitPixel.
           m_isWall f ! yy ! xx
             = onRing (image_width img div unitPixel) (image_height img div unitPixel) xx yy)"
proof -
  from assms have u: "0 < unitPixel" by (cases "unitPixel = 0") (simp_all add: Field_new_def)
  from assms have i: "init randomPos hsv (initialField img unitPixel) = Some f"
    unfolding Field_new_unfold [OF u] by (auto split: sum.splits option.splits)
  have "0 < image_height img div unitPixel"
  proof (rule ccontr)
    assume "\<not> 0 < image_height img div unitPixel"
    then have "image_height img div unitPixel = 0" by simp
    from init_empty [OF this, of randomPos hsv] i show False by simp
  qed
  from init_ok [OF this, of randomPos hsv] i show ?thesis by auto
qed

lemma erase_edit: "editWalls eraseInput (resetBrightness centerLightField) = Some erasedField"
  unfolding reset_center
  by (simp add: editWalls_def mouseGridPos_def gridUnitPixel_def centerLightField_def
      eraseInput_def height_def isValid_def cell_put_def FieldSpace_def erasedField_def
      signed_divide_int_def)

lemma erasedField_sel:
  "m_velocity erasedField = [(0, 0)]"
  "m_lightPos erasedField = [\<lparr>center = (48, 48), radius = 16\<rparr>]"
  "m_lightColor erasedField = [\<lparr>chan_r = 1, chan_g = 1, chan_b = 1, chan_a = 1\<rparr>]"
  "read (m_brightness erasedField) = Grid2D_fill 3 3 Black"
  "write' (m_brightness erasedField) = Grid2D_fill 3 3 Black"
  "m_isWall erasedField = [[False, True, True], [True, False, True], [True, True, True]]"
  by (simp_all add: erasedField_def read_def readIndex_def write'_def writeIndex_def)

lemma erased_force: "applyForce eraseInput 0 (48, 48) (0, 0) = (250 / 129, 250 / 129)"
  by (simp add: applyForce_def eraseInput_def vscale_def vsub_def vadd_def lengthSq_def Let_def dt_def)

lemma erased_move: "vadd (48, 48) (vscale (250 / 129, 250 / 129) dt) = (37177 / 774, 37177 / 774)"
  by (simp add: vadd_def vscale_def dt_def)

lemma erased_unit: "gridUnitPixel erasedField = Some 32"
  by (simp add: gridUnitPixel_def erasedField_def height_def)

lemma erased_gridPos:
  "gridPos erasedField (asPoint (48, 48)) = Some (1, 1)"
  "gridPos erasedField (asPoint (37177 / 774, 37177 / 774)) = Some (1, 1)"
  unfolding gridPos_def erased_unit by (simp_all add: asPoint_def truncate_def)

lemma erase_seed: "seedFrame intersects eraseInput centerLightField = Some erasedSeeded"
proof -
  have coll: "collision intersects erasedField (48, 48) (250 / 129, 250 / 129)
      = Some (250 / 129, 250 / 129)"
    unfolding collision_def Let_def erased_move erased_gridPos by simp
  have v: "isValid (Grid2D_fill 3 3 Black) (1, 1)"
    by (simp add: fill33 isValid_def)
  have put: "cell_put (Grid2D_fill 3 3 Black) (1, 1) \<lparr>chan_r = 1, chan_g = 1, chan_b = 1, chan_a = 1\<rparr>
     = Some [[Black, Black, Black],
             [Black, \<lparr>chan_r = 1, chan_g = 1, chan_b = 1, chan_a = 1\<rparr>, Black],
             [Black, Black, Black]]"
    by (simp add: fill33 cell_put_def isValid_def)
  have light: "updateLight intersects eraseInput 0 erasedField =
      Some (erasedField\<lparr>m_velocity := [(250 / 129, 250 / 129)],
          m_lightPos := [\<lparr>center = (37177 / 774, 37177 / 774), radius = 16\<rparr>],
          m_brightness := write_assign [[Black, Black, Black],
             [Black, \<lparr>chan_r = 1, chan_g = 1, chan_b = 1, chan_a = 1\<rparr>, Black],
             [Black, Black, Black]] (m_brightness erasedField)\<rparr>)"
    unfolding updateLight_def erasedField_sel
    by (simp add: nth_opt_def erased_force coll erased_move erased_gridPos v put)
  have "seedFrame intersects eraseInput centerLightField =
     Some (erasedField\<lparr>m_velocity := [(250 / 129, 250 / 129)],
          m_lightPos := [\<lparr>center = (37177 / 774, 37177 / 774), radius = 16\<rparr>],
          m_brightness := flip (write_assign [[Black, Black, Black],
             [Black, \<lparr>chan_r = 1, chan_g = 1, chan_b = 1, chan_a = 1\<rparr>, Black],
             [Black, Black, Black]] (m_brightness erasedField))\<rparr>)"
    unfolding seedFrame_def erase_edit
    by (simp add: erasedField_sel light)
  also have "\<dots> = Some erasedSeeded"
    by (simp add: erasedField_def erasedSeeded_def flip_def write_assign_def writeIndex_def fill33)
  finally show ?thesis .
qed

lemma erased_step: "stepLightDiffusion erasedSeeded = None"
proof -
  have rd: "read (m_brightness erasedSeeded) = [[Black, Black, Black],
             [Black, \<lparr>chan_r = 1, chan_g = 1, chan_b = 1, chan_a = 1\<rparr>, Black],
             [Black, Black, Black]]"
    by (simp add: erasedSeeded_def read_def readIndex_def)
  have wd: "width (read (m_brightness erasedSeeded)) = 3"
    and ht: "height (read (m_brightness erasedSeeded)) = 3"
    unfolding rd by (simp_all add: width_def height_def)
  have w0: "isWall erasedSeeded (0, 0) = Some False"
    by (simp add: isWall_def cell_at_def isValid_def erasedSeeded_def FieldWall_def)
  have w1: "isWall erasedSeeded (-1, 0) = None"
    by (simp add: isWall_def cell_at_def isValid_def erasedSeeded_def)
  have n0: "diffuseNeighbor erasedSeeded 0 0 0 Black = None"
    unfolding diffuseNeighbor_def by (simp add: neighbors_diffusion_def w1)
  have "[0..<8] = 0 # [Suc 0..<8]" by (rule upt_conv_Cons) simp
  then have "forM (diffuseNeighbor erasedSeeded 0 0) [0..<8] Black = None"
    using n0 by (simp only: forM.simps option.case)
  then have c: "diffuseCell erasedSeeded 0 0 wr = None" for wr
    unfolding diffuseCell_def using w0 by simp
  have "[0..<3] = 0 # [Suc 0..<3]" by (rule upt_conv_Cons) simp
  then have "forM (\<lambda>yy. forM (diffuseCell erasedSeeded yy) [0..<3]) [0..<3] wr = None" for wr
    using c by (simp only: forM.simps option.case)
  then show ?thesis
    unfolding stepLightDiffusion_def wd ht by simp
qed

section \<open>Claims\<close>

text \<open>
  C9. In every state of a \<^verbatim>\<open>DoubleBuffer\<close>, \<^verbatim>\<open>read()\<close> and \<^verbatim>\<open>write()\<close> select two
  different positions of the two-element array (so a store through \<^verbatim>\<open>write()\<close> leaves
  what \<^verbatim>\<open>read()\<close> returns unchanged); construction from an initial value makes both
  instances that value; \<^verbatim>\<open>flip()\<close> leaves the array itself untouched and only moves the
  index, so that what \<^verbatim>\<open>write()\<close> returned before the flip is what \<^verbatim>\<open>read()\<close> returns
  after it (and the other way round); two flips in a row give back the state.
\<close>

theorem DoubleBuffer_contract:
  assumes "DoubleBuffer_ok d"
  shows "(writeIndex d < 2 \<and> readIndex d < 2 \<and> writeIndex d \<noteq> readIndex d)
    \<and> (read (write_assign v d) = read d \<and> write' (write_assign v d) = v)
    \<and> (m_buffer (DoubleBuffer_init i) = [i, i]
         \<and> read (DoubleBuffer_init i) = i \<and> write' (DoubleBuffer_init i) = i
         \<and> DoubleBuffer_ok (DoubleBuffer_init i))
    \<and> (m_buffer (flip d) = m_buffer d \<and> DoubleBuffer_ok (flip d))
    \<and> (read (flip d) = write' d \<and> write' (flip d) = read d)
    \<and> flip (flip d) = d"
proof -
  from assms have c: "m_currentWriteBuffer d = 0 \<or> m_currentWriteBuffer d = 1"
    by (rule index_cases)
  from assms have l: "length (m_buffer d) = 2"
    by (simp add: DoubleBuffer_ok_def)
  have 1: "writeIndex d < 2 \<and> readIndex d < 2 \<and> writeIndex d \<noteq> readIndex d"
    using c l by (auto simp: writeIndex_def readIndex_def)
  have 2: "read (write_assign v d) = read d \<and> write' (write_assign v d) = v"
    using assms by (simp add: read_write_assign write_write_assign)
  have 3: "m_buffer (DoubleBuffer_init i) = [i, i]
         \<and> read (DoubleBuffer_init i) = i \<and> write' (DoubleBuffer_init i) = i
         \<and> DoubleBuffer_ok (DoubleBuffer_init i)"
    by (simp add: DoubleBuffer_init_def read_def write'_def readIndex_def writeIndex_def
        DoubleBuffer_ok_def)
  have 4: "m_buffer (flip d) = m_buffer d \<and> DoubleBuffer_ok (flip d)"
    using assms by (simp add: flip_def DoubleBuffer_ok_def)
  have 5: "read (flip d) = write' d \<and> write' (flip d) = read d"
    using assms by (simp add: read_flip write_flip)
  have 6: "flip (flip d) = d"
    using assms by (rule flip_flip)
  from 1 2 3 4 5 6 show ?thesis by blast
qed

theorem DoubleBuffer_contract_witness:
  "DoubleBuffer_ok (write_assign (7::nat) (flip (DoubleBuffer_init 3)))
   \<and> read (flip (write_assign (7::nat) (flip (DoubleBuffer_init 3)))) = 7
   \<and> write' (flip (write_assign (7::nat) (flip (DoubleBuffer_init 3)))) = 3
   \<and> flip (flip (write_assign (7::nat) (flip (DoubleBuffer_init 3))))
       = write_assign 7 (flip (DoubleBuffer_init 3))"
proof -
  let ?d = "write_assign (7::nat) (flip (DoubleBuffer_init 3))"
  have ok: "DoubleBuffer_ok ?d"
    by (simp add: DoubleBuffer_ok_write_assign DoubleBuffer_ok_flip DoubleBuffer_ok_init)
  have w: "write' ?d = 7" and r: "read ?d = 3"
    by (simp_all add: write'_def read_def write_assign_def flip_def DoubleBuffer_init_def
        writeIndex_def readIndex_def)
  from DoubleBuffer_contract [OF ok, of 0 0] ok
  show ?thesis unfolding w r by blast
qed

text \<open>
  C4. After a diffusion sub-step (its flip included), every cell of the grid that \<^verbatim>\<open>read()\<close>
  returns whose wall cell is solid holds \<^verbatim>\<open>Palette::Black\<close>, whatever the two buffers
  held before the sub-step.
\<close>

theorem wall_cells_dark_after_step:
  assumes "fieldDims f w h" and "stepLightDiffusion f = Some f'"
    and "isValid (read (m_brightness f')) p" and "isWall f' p = Some True"
  shows "cell_at (read (m_brightness f')) p = Some Black"
proof -
  from step_Some [OF assms(1,2)] have fd: "fieldDims f' w h" by (rule conjunct1)
  from step_Some [OF assms(1,2)] have mw: "m_isWall f' = m_isWall f" by (elim conjE)
  from fd have "rect (read (m_brightness f')) w h" by (simp add: fieldDims_def)
  moreover from assms(1) have rr: "rect (read (m_brightness f)) w h" by (simp add: fieldDims_def)
  ultimately have v: "isValid (read (m_brightness f)) p"
    using assms(3) by (simp add: isValid_rect)
  from assms(4) have "wallAt f p" unfolding wallAt_def isWall_step [OF mw] .
  with step_cell [OF assms(1,2) v] have "cell (read (m_brightness f')) p = Black"
    by (simp add: newCell_def)
  with assms(3) show ?thesis by (simp add: cell_at_Some)
qed

text \<open>
  C1. In a diffusion sub-step, for a cell \<open>p\<close> that is not a wall and each colour channel:
  the value written (which \<^verbatim>\<open>read()\<close> returns after the flip) is the maximum of the
  cell's own value in the grid read, of the darkest value 0 that \<^verbatim>\<open>maxBrightness\<close> starts
  from, and of the contributions of the 8 offsets: the neighbour's value in the grid read
  times 0.9 for an orthogonal offset and times 0.9 to the power \<open>sqrt 2\<close> for a diagonal
  one, where a neighbour outside the grid does not contribute and a diagonal neighbour is
  left out exactly when the cell in its column on this row and the cell in its row on this
  column are both walls. Brightness is never negative, and then the 0 is redundant: the
  value is the maximum of the own value and the contributions.
\<close>

theorem diffusion_cell_maximum:
  assumes "fieldDims f w h" and "stepLightDiffusion f = Some f'"
    and "isValid (read (m_brightness f)) p" and "isWall f p = Some False"
  shows "chan ch (cell (read (m_brightness f')) p)
           = Max (set (chan ch (cell (read (m_brightness f)) p) # 0 # neighborContributions f ch p))
       \<and> (0 \<le> chan ch (cell (read (m_brightness f)) p) \<longrightarrow>
            chan ch (cell (read (m_brightness f')) p)
              = Max (set (chan ch (cell (read (m_brightness f)) p) # neighborContributions f ch p)))"
proof -
  from assms(4) have "\<not> wallAt f p" by (simp add: wallAt_def)
  with step_cell [OF assms(1,2,3)]
  have "chan ch (cell (read (m_brightness f')) p)
      = max (chan ch (cell (read (m_brightness f)) p)) (Max (set (0 # neighborContributions f ch p)))"
    by (simp add: newCell_def)
  then have 1: "chan ch (cell (read (m_brightness f')) p)
           = Max (set (chan ch (cell (read (m_brightness f)) p) # 0 # neighborContributions f ch p))"
    unfolding Max_own_zero .
  have 2: "0 \<le> chan ch (cell (read (m_brightness f)) p) \<longrightarrow>
            chan ch (cell (read (m_brightness f')) p)
              = Max (set (chan ch (cell (read (m_brightness f)) p) # neighborContributions f ch p))"
  proof
    assume "0 \<le> chan ch (cell (read (m_brightness f)) p)"
    from Max_nonneg_own [OF this] 1 show "chan ch (cell (read (m_brightness f')) p)
              = Max (set (chan ch (cell (read (m_brightness f)) p) # neighborContributions f ch p))"
      by (rule subst)
  qed
  from 1 2 show ?thesis by (rule conjI)
qed

text \<open>
  C10. When the three grids have the same dimensions and the outer ring of the wall grid is
  solid, the two unchecked reads \<open>(x + dx, y)\<close> and \<open>(x, y + dy)\<close> of the corner test are
  within the wall grid for every cell that is not a wall and every offset, and the sub-step
  runs to its end. The sub-step itself does not establish this: on a grid of one open cell
  the read of \<open>(-1, 0)\<close> is out of range and the sub-step has no defined result.
\<close>

theorem corner_check_in_bounds:
  assumes "fieldDims f w h" and "ringWalls f w h"
  shows "(\<forall>p d. isValid (read (m_brightness f)) p \<and> isWall f p = Some False \<and> d \<in> set offsets8 \<longrightarrow>
            isValid (m_isWall f) (fst p + fst d, snd p) \<and> isValid (m_isWall f) (fst p, snd p + snd d))
       \<and> (\<exists>f'. stepLightDiffusion f = Some f')
       \<and> (fieldDims openField 1 1 \<and> isWall openField (-1, 0) = None
            \<and> stepLightDiffusion openField = None)"
proof -
  have 1: "\<forall>p d. isValid (read (m_brightness f)) p \<and> isWall f p = Some False \<and> d \<in> set offsets8 \<longrightarrow>
            isValid (m_isWall f) (fst p + fst d, snd p) \<and> isValid (m_isWall f) (fst p, snd p + snd d)"
  proof (intro allI impI)
    fix p d
    assume a: "isValid (read (m_brightness f)) p \<and> isWall f p = Some False \<and> d \<in> set offsets8"
    from assms(1) have rw: "rect (m_isWall f) w h" and rr: "rect (read (m_brightness f)) w h"
      by (simp_all add: fieldDims_def)
    from a have vp: "isValid (read (m_brightness f)) p" by (rule conjunct1)
    from valid_coords [OF rr vp] obtain xx yy where p: "p = (int xx, int yy)" "xx < w" "yy < h"
      by blast
    from a p(1) have "isWall f (int xx, int yy) = Some False" by simp
    from open_cell_interior [OF rw assms(2) p(2,3) this]
    have int: "0 < xx \<and> xx + 1 < w \<and> 0 < yy \<and> yy + 1 < h" .
    from a have "d \<in> set offsets8" by simp
    then have "fst d \<in> {-1, 0, 1} \<and> snd d \<in> {-1, 0, 1}"
      by (auto simp: offsets8_def)
    with int show "isValid (m_isWall f) (fst p + fst d, snd p)
        \<and> isValid (m_isWall f) (fst p, snd p + snd d)"
      unfolding p(1) isValid_rect [OF rw] by auto
  qed
  have 2: "\<exists>f'. stepLightDiffusion f = Some f'" using assms by (rule step_total)
  from 2 openField_step have "(\<exists>f'. stepLightDiffusion f = Some f')
       \<and> (fieldDims openField 1 1 \<and> isWall openField (-1, 0) = None
            \<and> stepLightDiffusion openField = None)"
    by (rule conjI)
  with 1 show ?thesis by (rule conjI)
qed

theorem wall_cells_dark_after_step_witness:
  "fieldDims litField 3 3
   \<and> cell_at (read (m_brightness litField)) (0, 0)
        = Some \<lparr>chan_r = 1, chan_g = 1, chan_b = 1, chan_a = 1\<rparr>
   \<and> (\<exists>f'. stepLightDiffusion litField = Some f'
         \<and> isValid (read (m_brightness f')) (0, 0) \<and> isWall f' (0, 0) = Some True
         \<and> cell_at (read (m_brightness f')) (0, 0) = Some Black)"
proof -
  from step_total [OF litField_dims litField_ring]
  obtain f' where f': "stepLightDiffusion litField = Some f'" by blast
  from step_Some [OF litField_dims f'] have fd: "fieldDims f' 3 3" by (rule conjunct1)
  from step_Some [OF litField_dims f'] have mw: "m_isWall f' = m_isWall litField" by (elim conjE)
  from fd have rr: "rect (read (m_brightness f')) 3 3" by (simp add: fieldDims_def)
  have v: "isValid (read (m_brightness f')) (0, 0)"
    unfolding isValid_rect [OF rr] by simp
  have w: "isWall f' (0, 0) = Some True"
    unfolding isWall_step [OF mw]
    by (simp add: isWall_def cell_at_def isValid_def litField_walls FieldWall_def)
  have c: "cell_at (read (m_brightness litField)) (0, 0)
        = Some \<lparr>chan_r = 1, chan_g = 1, chan_b = 1, chan_a = 1\<rparr>"
    unfolding litField_read by (simp add: cell_at_def isValid_def)
  from wall_cells_dark_after_step [OF litField_dims f' v w] f' v w
  have "\<exists>f'. stepLightDiffusion litField = Some f'
         \<and> isValid (read (m_brightness f')) (0, 0) \<and> isWall f' (0, 0) = Some True
         \<and> cell_at (read (m_brightness f')) (0, 0) = Some Black"
    by blast
  with litField_dims c show ?thesis by (intro conjI)
qed

theorem diffusion_cell_maximum_witness:
  "fieldDims litField 3 3 \<and> isValid (read (m_brightness litField)) (1, 1)
   \<and> isWall litField (1, 1) = Some False
   \<and> (\<exists>f'. stepLightDiffusion litField = Some f'
         \<and> chan Red (cell (read (m_brightness f')) (1, 1)) = 1
         \<and> chan Green (cell (read (m_brightness f')) (1, 1)) = 1 / 2
         \<and> chan Blue (cell (read (m_brightness f')) (1, 1)) = 0)"
proof -
  from step_total [OF litField_dims litField_ring]
  obtain f' where f': "stepLightDiffusion litField = Some f'" by blast
  have v: "isValid (read (m_brightness litField)) (1, 1)"
    unfolding litField_read by (simp add: isValid_def)
  have w: "isWall litField (1, 1) = Some False"
    by (simp add: isWall_def cell_at_def isValid_def litField_walls FieldWall_def)
  have own: "cell (read (m_brightness litField)) (1, 1)
      = \<lparr>chan_r = 1, chan_g = 1 / 2, chan_b = 0, chan_a = 1\<rparr>"
    unfolding litField_read by (simp add: cell_def)
  have r: "chan Red (cell (read (m_brightness f')) (1, 1)) = 1"
    using diffusion_cell_maximum [OF litField_dims f' v w, of Red]
    unfolding own litField_neighborContributions by simp
  have g: "chan Green (cell (read (m_brightness f')) (1, 1)) = 1 / 2"
    using diffusion_cell_maximum [OF litField_dims f' v w, of Green]
    unfolding own litField_neighborContributions by simp
  have b: "chan Blue (cell (read (m_brightness f')) (1, 1)) = 0"
    using diffusion_cell_maximum [OF litField_dims f' v w, of Blue]
    unfolding own litField_neighborContributions by simp
  from f' r g b have "\<exists>f'. stepLightDiffusion litField = Some f'
         \<and> chan Red (cell (read (m_brightness f')) (1, 1)) = 1
         \<and> chan Green (cell (read (m_brightness f')) (1, 1)) = 1 / 2
         \<and> chan Blue (cell (read (m_brightness f')) (1, 1)) = 0"
    by blast
  with litField_dims v w show ?thesis by (intro conjI)
qed

theorem corner_check_in_bounds_witness:
  "fieldDims litField 3 3 \<and> ringWalls litField 3 3
   \<and> isValid (m_isWall litField) (1 + 1, 1) \<and> isValid (m_isWall litField) (1, 1 + (-1))
   \<and> (\<exists>f'. stepLightDiffusion litField = Some f')"
proof -
  have v: "isValid (read (m_brightness litField)) (1, 1)"
    unfolding litField_read by (simp add: isValid_def)
  have w: "isWall litField (1, 1) = Some False"
    by (simp add: isWall_def cell_at_def isValid_def litField_walls FieldWall_def)
  have d: "(1, -1) \<in> set offsets8" by (simp add: offsets8_def)
  from corner_check_in_bounds [OF litField_dims litField_ring]
  have a: "\<forall>p d. isValid (read (m_brightness litField)) p \<and> isWall litField p = Some False
             \<and> d \<in> set offsets8 \<longrightarrow>
            isValid (m_isWall litField) (fst p + fst d, snd p)
            \<and> isValid (m_isWall litField) (fst p, snd p + snd d)"
    by (rule conjunct1)
  from corner_check_in_bounds [OF litField_dims litField_ring]
  have b: "\<exists>f'. stepLightDiffusion litField = Some f'"
    by (elim conjE)
  from v w d have pre: "isValid (read (m_brightness litField)) (1, 1)
      \<and> isWall litField (1, 1) = Some False \<and> (1, -1) \<in> set offsets8"
    by (intro conjI)
  from a [rule_format, of "(1, 1)" "(1, -1)", OF pre]
  have c: "isValid (m_isWall litField) (1 + 1, 1) \<and> isValid (m_isWall litField) (1, 1 + (-1))"
    by (simp only: fst_conv snd_conv)
  from c b have "(isValid (m_isWall litField) (1 + 1, 1) \<and> isValid (m_isWall litField) (1, 1 + (-1)))
      \<and> (\<exists>f'. stepLightDiffusion litField = Some f')" by (rule conjI)
  with litField_dims litField_ring show ?thesis by (simp only: conj_assoc simp_thms)
qed

text \<open>
  C6 (as the code has it). Let \<open>fj\<close> be the field \<open>j\<close> sub-steps after the seeded field \<open>f\<close>
  and \<open>fk\<close> the field \<open>k\<close> sub-steps after \<open>fj\<close>. For a cell that is not a wall, no colour
  channel of the grid that \<^verbatim>\<open>read()\<close> returns is smaller in \<open>fk\<close> than in \<open>fj\<close>. A wall
  cell holds \<^verbatim>\<open>Palette::Black\<close> in \<open>fj\<close> and \<open>fk\<close> once one sub-step has run.
\<close>

theorem diffusion_monotone_open_cells:
  assumes "fieldDims f w h" and "diffusion j f = Some fj" and "diffusion k fj = Some fk"
    and "isValid (read (m_brightness f)) p"
  shows "(isWall f p = Some False \<longrightarrow>
            chan ch (cell (read (m_brightness fj)) p) \<le> chan ch (cell (read (m_brightness fk)) p))
       \<and> (isWall f p = Some True \<and> 0 < j \<longrightarrow>
            cell (read (m_brightness fj)) p = Black \<and> cell (read (m_brightness fk)) p = Black)"
proof -
  from diffusion_Some [OF assms(1,2)] have fj: "fieldDims fj w h" and wj: "m_isWall fj = m_isWall f"
    by simp_all
  have vj: "isValid (read (m_brightness fj)) p"
    unfolding valid_after [OF assms(1) fj] by (rule assms(4))
  have 1: "isWall f p = Some False \<longrightarrow>
            chan ch (cell (read (m_brightness fj)) p) \<le> chan ch (cell (read (m_brightness fk)) p)"
  proof
    assume "isWall f p = Some False"
    then have "isWall fj p = Some False" unfolding isWall_step [OF wj] .
    from diffusion_mono [OF fj assms(3) vj this]
    show "chan ch (cell (read (m_brightness fj)) p) \<le> chan ch (cell (read (m_brightness fk)) p)" .
  qed
  have 2: "isWall f p = Some True \<and> 0 < j \<longrightarrow>
            cell (read (m_brightness fj)) p = Black \<and> cell (read (m_brightness fk)) p = Black"
  proof
    assume a: "isWall f p = Some True \<and> 0 < j"
    then have w: "isWall f p = Some True" and j: "0 < j" by simp_all
    from diffusion_wall [OF assms(1,2) j assms(4) w] have bj: "cell (read (m_brightness fj)) p = Black" .
    have "cell (read (m_brightness fk)) p = Black"
    proof (cases k)
      case 0
      with assms(3) bj show ?thesis by simp
    next
      case (Suc m)
      then have "0 < k" by simp
      from w have "isWall fj p = Some True" unfolding isWall_step [OF wj] .
      from diffusion_wall [OF fj assms(3) \<open>0 < k\<close> vj this] show ?thesis .
    qed
    with bj show "cell (read (m_brightness fj)) p = Black \<and> cell (read (m_brightness fk)) p = Black"
      by (rule conjI)
  qed
  from 1 2 show ?thesis by (rule conjI)
qed

text \<open>
  C6 as stated fails for a wall cell that a light is stamped on. A field of 3 by 3 cells
  with one light at rest in its open centre cell; in the frame, the pointer paints that
  cell solid. The seeded buffer holds the light's colour in the centre cell, and the first
  sub-step sets it to the darkest value.
\<close>

theorem diffusion_monotone_counterexample:
  "seedFrame (\<lambda>r l. False) paintInput centerLightField = Some paintedField
   \<and> stepLightDiffusion paintedField = Some darkField
   \<and> chan Red (cell (read (m_brightness paintedField)) (1, 1)) = 1
   \<and> chan Red (cell (read (m_brightness darkField)) (1, 1)) = 0
   \<and> chan Red (cell (read (m_brightness darkField)) (1, 1))
       < chan Red (cell (read (m_brightness paintedField)) (1, 1))"
proof -
  have "chan Red (cell (read (m_brightness paintedField)) (1, 1)) = 1"
    unfolding paintedField_sel by (simp add: cell_def)
  moreover have "chan Red (cell (read (m_brightness darkField)) (1, 1)) = 0"
    by (simp add: darkField_def read_def readIndex_def cell_def Black_def)
  ultimately show ?thesis using seed_center painted_step by simp
qed

theorem diffusion_monotone_open_cells_witness:
  "fieldDims litField 3 3 \<and> isValid (read (m_brightness litField)) (1, 1)
   \<and> isWall litField (1, 1) = Some False
   \<and> (\<exists>f1 f3. diffusion 1 litField = Some f1 \<and> diffusion 2 f1 = Some f3
        \<and> chan Green (cell (read (m_brightness f1)) (1, 1))
            \<le> chan Green (cell (read (m_brightness f3)) (1, 1)))"
proof -
  from diffusion_total [OF litField_dims litField_ring, of 1]
  obtain f1 where f1: "diffusion 1 litField = Some f1" by blast
  from diffusion_Some [OF litField_dims f1] have d1: "fieldDims f1 3 3"
    and w1: "m_isWall f1 = m_isWall litField" by simp_all
  from litField_ring have "ringWalls f1 3 3" unfolding ringWalls_cong [OF w1] .
  from diffusion_total [OF d1 this, of 2]
  obtain f3 where f3: "diffusion 2 f1 = Some f3" by blast
  have v: "isValid (read (m_brightness litField)) (1, 1)"
    unfolding litField_read by (simp add: isValid_def)
  have w: "isWall litField (1, 1) = Some False"
    by (simp add: isWall_def cell_at_def isValid_def litField_walls FieldWall_def)
  from diffusion_monotone_open_cells [OF litField_dims f1 f3 v, of Green] w
  have "chan Green (cell (read (m_brightness f1)) (1, 1))
            \<le> chan Green (cell (read (m_brightness f3)) (1, 1))"
    by (rule conjunct1 [THEN mp])
  with f1 f3 have "\<exists>f1 f3. diffusion 1 litField = Some f1 \<and> diffusion 2 f1 = Some f3
        \<and> chan Green (cell (read (m_brightness f1)) (1, 1))
            \<le> chan Green (cell (read (m_brightness f3)) (1, 1))"
    by blast
  with litField_dims v w show ?thesis by (intro conjI)
qed

text \<open>
  C7. For light \<open>i\<close> in a frame: when the grid coordinates of the start and of the end of
  the movement segment are not both within the wall grid, or are the same, or the start
  is a wall cell, the collision block leaves the velocity that the damping and the force
  produced as it is, and that velocity is the one stored and the one that moves the light.
  Only when all three conditions hold does the loop over the neighbours decide the velocity.
\<close>

theorem collision_guard:
  assumes "nth_opt (m_velocity f) i = Some v0" and "nth_opt (m_lightPos f) i = Some light"
    and "v1 = applyForce inp i (center light) v0"
    and "gridPos f (asPoint (center light)) = Some gridA"
    and "gridPos f (asPoint (vadd (center light) (vscale v1 dt))) = Some gridB"
    and "updateLight intersects inp i f = Some f'"
  shows "(\<not> (isValid (m_isWall f) gridA \<and> isValid (m_isWall f) gridB \<and> gridA \<noteq> gridB
              \<and> isWall f gridA = Some False) \<longrightarrow>
            collision intersects f (center light) v1 = Some v1
            \<and> m_velocity f' ! i = v1
            \<and> center (m_lightPos f' ! i) = vadd (center light) (vscale v1 dt))
       \<and> (isValid (m_isWall f) gridA \<and> isValid (m_isWall f) gridB \<and> gridA \<noteq> gridB
              \<and> isWall f gridA = Some False \<longrightarrow>
            collision intersects f (center light) v1 =
              map_option fst (collide intersects f (center light, vadd (center light) (vscale v1 dt))
                 gridA [0..<8] (v1, False)))"
proof (intro conjI impI)
  assume n: "\<not> (isValid (m_isWall f) gridA \<and> isValid (m_isWall f) gridB \<and> gridA \<noteq> gridB
              \<and> isWall f gridA = Some False)"
  have "isValid (m_isWall f) gridA \<Longrightarrow> \<exists>w. isWall f gridA = Some w"
    by (simp add: isWall_def cell_at_def)
  with n have c: "collision intersects f (center light) v1 = Some v1"
    unfolding collision_unfold [OF assms(4,5)] by (auto split: option.splits)
  then show "collision intersects f (center light) v1 = Some v1" .
  from c have c': "collision intersects f (center light) (applyForce inp i (center light) v0) = Some v1"
    unfolding assms(3) .
  from updateLight_velocity [OF assms(1,2) c' assms(6)]
  show "m_velocity f' ! i = v1" and "center (m_lightPos f' ! i) = vadd (center light) (vscale v1 dt)"
    by simp_all
next
  assume "isValid (m_isWall f) gridA \<and> isValid (m_isWall f) gridB \<and> gridA \<noteq> gridB
              \<and> isWall f gridA = Some False"
  then show "collision intersects f (center light) v1 =
              map_option fst (collide intersects f (center light, vadd (center light) (vscale v1 dt))
                 gridA [0..<8] (v1, False))"
    unfolding collision_unfold [OF assms(4,5)] by simp
qed

text \<open>
  C2 (as the code has it). The loop over the 8 neighbours of the start cell, entered with
  \<^verbatim>\<open>reflects\<close> false: every colliding cardinal neighbour (up, left, right, down) applies
  its scaling, which inverts and damps by the restitution the axis on which the neighbour
  is displaced and keeps the other axis; when a cardinal neighbour collides, no diagonal
  neighbour is applied; when none does, only the first colliding diagonal neighbour (in the
  order up-left, up-right, down-left, down-right) applies its scaling, which inverts and
  damps both axes. The list printed for \<open>v\<close> is the scaling of each of the 8 neighbours.
\<close>

theorem collision_reflections:
  assumes "gridUnitPixel f = Some u"
  shows "collide intersects f seg gridA [0..<8] (v, False) =
           Some (fold (\<lambda>j. reflectBy (neighbors_update ! j))
                   (appliedReflections (hitAt intersects f u seg gridA)) v,
                 appliedReflections (hitAt intersects f u seg gridA) \<noteq> [])
       \<and> map (\<lambda>j. reflectBy (neighbors_update ! j) v) [0..<8] =
           [(fst v, - restitution * snd v), (- restitution * fst v, snd v),
            (- restitution * fst v, snd v), (fst v, - restitution * snd v),
            (- restitution * fst v, - restitution * snd v),
            (- restitution * fst v, - restitution * snd v),
            (- restitution * fst v, - restitution * snd v),
            (- restitution * fst v, - restitution * snd v)]
       \<and> ((\<exists>j<4. hitAt intersects f u seg gridA j) \<longrightarrow>
            appliedReflections (hitAt intersects f u seg gridA)
              = filter (hitAt intersects f u seg gridA) [0..<4])
       \<and> (\<not> (\<exists>j<4. hitAt intersects f u seg gridA j) \<longrightarrow>
            appliedReflections (hitAt intersects f u seg gridA)
              = take 1 (filter (hitAt intersects f u seg gridA) [4..<8]))"
proof -
  let ?h = "hitAt intersects f u seg gridA"
  have 1: "collide intersects f seg gridA [0..<8] (v, False) =
           Some (fold (\<lambda>j. reflectBy (neighbors_update ! j)) (appliedReflections ?h) v,
                 appliedReflections ?h \<noteq> [])"
    using assms by (rule collide_all)
  have "[0..<8] = [0, 1, 2, 3, 4, 5, 6, 7]" by (simp add: upt_rec)
  then have 2: "map (\<lambda>j. reflectBy (neighbors_update ! j) v) [0..<8] =
           [(fst v, - restitution * snd v), (- restitution * fst v, snd v),
            (- restitution * fst v, snd v), (fst v, - restitution * snd v),
            (- restitution * fst v, - restitution * snd v),
            (- restitution * fst v, - restitution * snd v),
            (- restitution * fst v, - restitution * snd v),
            (- restitution * fst v, - restitution * snd v)]"
    by (simp add: reflectBy_def neighbors_update_def)
  have e: "(\<exists>j<4. ?h j) = (filter ?h [0..<4] \<noteq> [])"
    by (auto simp: filter_empty_conv)
  have 3: "(\<exists>j<4. ?h j) \<longrightarrow> appliedReflections ?h = filter ?h [0..<4]"
    unfolding e appliedReflections_def Let_def by (rule impI, simp only: if_True if_False simp_thms)
  have 4: "\<not> (\<exists>j<4. ?h j) \<longrightarrow> appliedReflections ?h = take 1 (filter ?h [4..<8])"
    unfolding e appliedReflections_def Let_def by (rule impI, simp only: if_True if_False simp_thms)
  from 1 2 3 4 show ?thesis by (intro conjI)
qed

theorem collision_reflections_witness:
  "gridUnitPixel cornerField = Some 32
   \<and> collide endpointInside cornerField ((65, 65), (95, 63)) (2, 2) [0..<8] ((1800, -120), False)
       = Some ((-900, 60), True)"
proof -
  from collision_reflections [OF corner_unit, of endpointInside "((65, 65), (95, 63))" "(2, 2)" "(1800, -120)"]
  have "collide endpointInside cornerField ((65, 65), (95, 63)) (2, 2) [0..<8] ((1800, -120), False)
     = Some (fold (\<lambda>j. reflectBy (neighbors_update ! j))
                   (appliedReflections (hitAt endpointInside cornerField 32 ((65, 65), (95, 63)) (2, 2)))
                   (1800, -120),
                 appliedReflections (hitAt endpointInside cornerField 32 ((65, 65), (95, 63)) (2, 2)) \<noteq> [])"
    by (rule conjunct1)
  then have "collide endpointInside cornerField ((65, 65), (95, 63)) (2, 2) [0..<8] ((1800, -120), False)
       = Some ((-900, 60), True)"
    unfolding corner_applied by (simp add: reflectBy_def neighbors_update_def restitution_def)
  with corner_unit show ?thesis by (rule conjI)
qed

text \<open>
  C2 as stated fails when two diagonal neighbours collide and no cardinal one does. A field
  of 5 by 5 cells of 32 pixels with walls at the cells \<open>(1, 1)\<close> and \<open>(3, 1)\<close>; a light at
  \<open>(65, 65)\<close> in the cell \<open>(2, 2)\<close> with velocity \<open>(1800, -120)\<close> moves to \<open>(95, 63)\<close> in the cell
  \<open>(2, 1)\<close>. The segment starts in the widened rectangle of the up-left neighbour and ends
  in that of the up-right neighbour. The code applies the up-left reflection only and
  gives \<open>(-900, 60)\<close>; applying both, as the claim says, would give \<open>(450, -30)\<close>.
\<close>

theorem collision_reflections_counterexample:
  "collision endpointInside cornerField (65, 65) (1800, -120) = Some (-900, 60)
   \<and> claimedReflections (hitAt endpointInside cornerField 32 ((65, 65), (95, 63)) (2, 2)) = [4, 5]
   \<and> fold (\<lambda>j. reflectBy (neighbors_update ! j))
        (claimedReflections (hitAt endpointInside cornerField 32 ((65, 65), (95, 63)) (2, 2)))
        (1800, -120) = (450, -30)"
proof -
  have "fold (\<lambda>j. reflectBy (neighbors_update ! j)) [4, 5] (1800, -120) = (450, -30)"
    by (simp add: reflectBy_def neighbors_update_def restitution_def)
  with corner_collision corner_claimed show ?thesis by simp
qed

theorem collision_guard_witness:
  "nth_opt (m_velocity editedField) 0 = Some (0, 0)
   \<and> nth_opt (m_lightPos editedField) 0 = Some \<lparr>center = (48, 48), radius = 16\<rparr>
   \<and> gridPos editedField (asPoint (48, 48)) = Some (1, 1)
   \<and> gridPos editedField (asPoint (vadd (48, 48) (vscale (applyForce paintInput 0 (48, 48) (0, 0)) dt)))
        = Some (1, 1)
   \<and> (\<exists>f'. updateLight (\<lambda>r l. True) paintInput 0 editedField = Some f'
         \<and> m_velocity f' ! 0 = (0, 0) \<and> center (m_lightPos f' ! 0) = (48, 48))"
proof -
  have a: "nth_opt (m_velocity editedField) 0 = Some (0, 0)"
    and b: "nth_opt (m_lightPos editedField) 0 = Some \<lparr>center = (48, 48), radius = 16\<rparr>"
    by (simp_all add: nth_opt_def editedField_sel)
  have c: "(0, 0) = applyForce paintInput 0 (center \<lparr>center = (48, 48), radius = 16\<rparr>) (0, 0)"
    by (simp add: edited_force)
  have d: "gridPos editedField (asPoint (center \<lparr>center = (48, 48), radius = 16\<rparr>)) = Some (1, 1)"
    by (simp add: edited_gridPos)
  have e: "gridPos editedField
      (asPoint (vadd (center \<lparr>center = (48, 48), radius = 16\<rparr>) (vscale (0, 0) dt))) = Some (1, 1)"
    by (simp add: edited_move edited_gridPos)
  from edited_light obtain f' where f': "updateLight (\<lambda>r l. True) paintInput 0 editedField = Some f'"
    by blast
  have n: "\<not> (isValid (m_isWall editedField) (1, 1) \<and> isValid (m_isWall editedField) (1, 1)
      \<and> (1, 1) \<noteq> ((1, 1) :: Point) \<and> isWall editedField (1, 1) = Some False)"
    by simp
  from collision_guard [OF a b c d e f', THEN conjunct1, rule_format, OF n]
  have "m_velocity f' ! 0 = (0, 0) \<and> center (m_lightPos f' ! 0) = (48, 48)"
    by (simp add: edited_move)
  with f' have "\<exists>f'. updateLight (\<lambda>r l. True) paintInput 0 editedField = Some f'
         \<and> m_velocity f' ! 0 = (0, 0) \<and> center (m_lightPos f' ! 0) = (48, 48)"
    by blast
  with a b edited_gridPos e show ?thesis by (simp add: edited_force edited_move)
qed

text \<open>
  C8 (as the code has it). For a positive cell size: when the width or the height of the
  image is not a multiple of the cell size, construction ends in the assertion failure,
  after the message is logged, and no field is returned; when both are multiples and the
  image has at least one row of cells, construction returns a field whose wall grid has
  the image's width and height divided by the cell size.
\<close>

theorem construction_checks_divisibility:
  assumes "0 < unitPixel"
  shows "(\<not> (unitPixel dvd image_width img \<and> unitPixel dvd image_height img) \<longrightarrow>
            Field_new randomPos hsv img unitPixel = Inl (AssertionFailed
              ''Field Class Initialization Failed : Field Resolution Cannot Be Divided By Cell Unit Size.''))
       \<and> (unitPixel dvd image_width img \<and> unitPixel dvd image_height img \<and> 0 < image_height img \<longrightarrow>
            (\<exists>f. Field_new randomPos hsv img unitPixel = Inr f
               \<and> m_field f = img
               \<and> width (m_isWall f) = image_width img div unitPixel
               \<and> height (m_isWall f) = image_height img div unitPixel))"
proof (intro conjI impI)
  assume "\<not> (unitPixel dvd image_width img \<and> unitPixel dvd image_height img)"
  from check_fail [OF this] show "Field_new randomPos hsv img unitPixel = Inl (AssertionFailed
              ''Field Class Initialization Failed : Field Resolution Cannot Be Divided By Cell Unit Size.'')"
    unfolding Field_new_unfold [OF assms] by simp
next
  assume a: "unitPixel dvd image_width img \<and> unitPixel dvd image_height img \<and> 0 < image_height img"
  then have "unitPixel \<le> image_height img" by (auto dest: dvd_imp_le)
  with assms have pos: "0 < image_height img div unitPixel" by (simp add: div_greater_zero_iff)
  from init_ok [OF pos, of randomPos hsv] obtain f where
    f: "init randomPos hsv (initialField img unitPixel) = Some f" "m_field f = img"
       "rect (m_isWall f) (image_width img div unitPixel) (image_height img div unitPixel)"
    by blast
  from a have "checkInitialValidness (initialField img unitPixel) unitPixel = Inr ()"
    by (simp add: check_ok)
  then have "Field_new randomPos hsv img unitPixel = Inr f"
    unfolding Field_new_unfold [OF assms] using f(1) by simp
  moreover have "width (m_isWall f) = image_width img div unitPixel"
    using f(3) pos by (rule rect_width)
  moreover have "height (m_isWall f) = image_height img div unitPixel"
    using f(3) by (rule rect_height)
  ultimately show "\<exists>f. Field_new randomPos hsv img unitPixel = Inr f
               \<and> m_field f = img
               \<and> width (m_isWall f) = image_width img div unitPixel
               \<and> height (m_isWall f) = image_height img div unitPixel"
    using f(2) by blast
qed

theorem construction_checks_divisibility_witness:
  "(0::nat) < 32
   \<and> Field_new (\<lambda>i. (48, 48)) (\<lambda>h s v. Black) \<lparr>image_width = 100, image_height = 96\<rparr> 32
       = Inl (AssertionFailed
              ''Field Class Initialization Failed : Field Resolution Cannot Be Divided By Cell Unit Size.'')
   \<and> (\<exists>f. Field_new (\<lambda>i. (48, 48)) (\<lambda>h s v. Black) \<lparr>image_width = 96, image_height = 96\<rparr> 32 = Inr f
         \<and> width (m_isWall f) = 3 \<and> height (m_isWall f) = 3)"
proof -
  have p: "(0::nat) < 32" by simp
  have 1: "Field_new (\<lambda>i. (48, 48)) (\<lambda>h s v. Black) \<lparr>image_width = 100, image_height = 96\<rparr> 32
       = Inl (AssertionFailed
              ''Field Class Initialization Failed : Field Resolution Cannot Be Divided By Cell Unit Size.'')"
    using construction_checks_divisibility [OF p, of "\<lparr>image_width = 100, image_height = 96\<rparr>"
        "\<lambda>i. (48, 48)" "\<lambda>h s v. Black"]
    by simp
  have 2: "\<exists>f. Field_new (\<lambda>i. (48, 48)) (\<lambda>h s v. Black) \<lparr>image_width = 96, image_height = 96\<rparr> 32 = Inr f
         \<and> width (m_isWall f) = 3 \<and> height (m_isWall f) = 3"
    using construction_checks_divisibility [OF p, of "\<lparr>image_width = 96, image_height = 96\<rparr>"
        "\<lambda>i. (48, 48)" "\<lambda>h s v. Black"]
    by auto
  from p 1 2 show ?thesis by (intro conjI)
qed

text \<open>
  C8 as stated fails on an image without rows and for the cell size 0. An image 64 wide
  and 0 high divides evenly by 32 and passes the check, but \<^verbatim>\<open>init()\<close> then evaluates
  \<^verbatim>\<open>gridUnitPixel()\<close>, which divides the height by the number of rows, 0: construction
  does not succeed. With the cell size 0 the member initialisers divide by zero before
  anything is logged.
\<close>

theorem construction_checks_divisibility_counterexample:
  "Field_new (\<lambda>i. (48, 48)) (\<lambda>h s v. Black) \<lparr>image_width = 64, image_height = 0\<rparr> 32 = Inl Undefined
   \<and> (32::nat) dvd 64 \<and> (32::nat) dvd 0
   \<and> Field_new (\<lambda>i. (48, 48)) (\<lambda>h s v. Black) \<lparr>image_width = 33, image_height = 32\<rparr> 0 = Inl Undefined"
proof -
  have p: "(0::nat) < 32" by simp
  have "checkInitialValidness (initialField \<lparr>image_width = 64, image_height = 0\<rparr> 32) 32 = Inr ()"
    by (rule check_ok) simp_all
  moreover have "init (\<lambda>i. (48, 48)) (\<lambda>h s v. Black) (initialField \<lparr>image_width = 64, image_height = 0\<rparr> 32) = None"
    by (rule init_empty) simp
  ultimately have "Field_new (\<lambda>i. (48, 48)) (\<lambda>h s v. Black) \<lparr>image_width = 64, image_height = 0\<rparr> 32 = Inl Undefined"
    unfolding Field_new_unfold [OF p] by simp
  moreover have "Field_new (\<lambda>i. (48, 48)) (\<lambda>h s v. Black) \<lparr>image_width = 33, image_height = 32\<rparr> 0 = Inl Undefined"
    by (simp add: Field_new_def)
  ultimately show ?thesis by simp
qed

text \<open>
  C3, the defect. A field of 3 by 3 cells of 32 pixels whose wall grid is as \<^verbatim>\<open>init()\<close>
  leaves it (lemma \<open>construction_ring\<close>), with one light at rest in the centre cell; a frame with the clear-wall button held and the pointer
  at pixel \<open>(5, 5)\<close>, which is in the corner cell \<open>(0, 0)\<close> of the outer ring. The wall edit
  of the frame opens that ring cell, and the first diffusion sub-step of the same frame
  reads the wall grid at \<open>(-1, 0)\<close>: the frame has no defined result.
\<close>

theorem ring_cell_erased_by_wall_edit:
  "isWall centerLightField (0, 0) = Some True
   \<and> editWalls eraseInput (resetBrightness centerLightField) = Some erasedField
   \<and> isWall erasedField (0, 0) = Some False
   \<and> seedFrame (\<lambda>r l. False) eraseInput centerLightField = Some erasedSeeded
   \<and> isWall erasedSeeded (-1, 0) = None
   \<and> stepLightDiffusion erasedSeeded = None
   \<and> update (\<lambda>r l. False) eraseInput centerLightField = None"
proof -
  have 1: "isWall centerLightField (0, 0) = Some True"
    by (simp add: isWall_def cell_at_def isValid_def centerLightField_def FieldWall_def)
  have 2: "isWall erasedField (0, 0) = Some False"
    by (simp add: isWall_def cell_at_def isValid_def erasedField_sel FieldWall_def)
  have 3: "isWall erasedSeeded (-1, 0) = None"
    by (simp add: isWall_def cell_at_def isValid_def erasedSeeded_def)
  have "diffusion 30 erasedSeeded = diffusion (Suc 29) erasedSeeded" by simp
  also have "\<dots> = None" unfolding diffusion.simps erased_step by simp
  finally have "update (\<lambda>r l. False) eraseInput centerLightField = None"
    unfolding update_def erase_seed by simp
  with 1 2 3 erase_edit erase_seed erased_step show ?thesis by (intro conjI)
qed

end
